theory Spec2Isabelle
  imports
    Complex_Main
    "HOL-Library.Char_ord"
    "HOL-Library.List_Lexorder"
    "HOL-Library.Product_Lexorder"
begin

section \<open>Python values, exceptions and the numpy operations the module uses\<close>

text \<open>
  The module \<^verbatim>\<open>sessions_insights.py\<close> works on the rows a ClickHouse query returns: a list
  of dicts, one per row, whose keys are the column aliases of the SELECT clause in column
  order. A cell is \<^verbatim>\<open>None\<close>, a number, a string, a \<^verbatim>\<open>datetime\<close> (the bucket timestamp) or a
  list of strings (\<^verbatim>\<open>groupUniqArray\<close>); subtracting two datetimes gives a \<^verbatim>\<open>timedelta\<close>.

  Numbers are modelled by their exact value: Python's \<^verbatim>\<open>int\<close> and \<^verbatim>\<open>float\<close> compare equal when
  they denote the same number, and the quotient of a true division is the exact rational
  (the rounding of the IEEE double is not modelled). Datetimes and timedeltas are exact
  numbers of seconds.
\<close>

datatype val =
    VNone
  | VNum rat
  | VStr string
  | VTime rat
  | VDelta rat
  | VArr "string list"

datatype error =
    IndexError
  | ValueError
  | TypeError
  | ZeroDivisionError
  | AssertionError
  | UnboundLocalError
  | DataSourceError

type_synonym row = "(string \<times> val) list"
type_synonym response = "row list"

text \<open>Sequencing of computations that may raise: the first exception ends the computation.\<close>

definition bindE :: "error + 'a \<Rightarrow> ('a \<Rightarrow> error + 'b) \<Rightarrow> error + 'b" where
  "bindE m f = (case m of Inl e \<Rightarrow> Inl e | Inr x \<Rightarrow> f x)"

text \<open>\<^verbatim>\<open>xs.index(x)\<close>: the first position of \<open>x\<close>, ValueError when it is absent.\<close>

fun list_index :: "'a list \<Rightarrow> 'a \<Rightarrow> error + nat" where
  "list_index [] x = Inl ValueError"
| "list_index (y # ys) x =
     (if y = x then Inr 0 else bindE (list_index ys x) (\<lambda>i. Inr (Suc i)))"

text \<open>\<^verbatim>\<open>xs[i]\<close> for an index that \<^verbatim>\<open>index\<close> produced (never negative).\<close>

definition py_nth :: "'a list \<Rightarrow> nat \<Rightarrow> error + 'a" where
  "py_nth xs i = (if i < length xs then Inr (xs ! i) else Inl IndexError)"

text \<open>\<^verbatim>\<open>if x not in xs: xs.append(x)\<close>\<close>

definition append_unique :: "'a list \<Rightarrow> 'a \<Rightarrow> 'a list" where
  "append_unique xs x = (if x \<notin> set xs then xs @ [x] else xs)"

text \<open>\<^verbatim>\<open>d[k] = v\<close> on a dict kept in insertion order.\<close>

fun dict_set :: "('k \<times> 'v) list \<Rightarrow> 'k \<Rightarrow> 'v \<Rightarrow> ('k \<times> 'v) list" where
  "dict_set [] k v = [(k, v)]"
| "dict_set (p # ps) k v = (if fst p = k then (k, v) # ps else p # dict_set ps k v)"

fun py_add :: "val \<Rightarrow> val \<Rightarrow> error + val" where
  "py_add (VNum a) (VNum b) = Inr (VNum (a + b))"
| "py_add (VStr a) (VStr b) = Inr (VStr (a @ b))"
| "py_add (VArr a) (VArr b) = Inr (VArr (a @ b))"
| "py_add (VTime a) (VDelta b) = Inr (VTime (a + b))"
| "py_add (VDelta a) (VTime b) = Inr (VTime (a + b))"
| "py_add (VDelta a) (VDelta b) = Inr (VDelta (a + b))"
| "py_add _ _ = Inl TypeError"

fun py_sub :: "val \<Rightarrow> val \<Rightarrow> error + val" where
  "py_sub (VNum a) (VNum b) = Inr (VNum (a - b))"
| "py_sub (VTime a) (VTime b) = Inr (VDelta (a - b))"
| "py_sub (VTime a) (VDelta b) = Inr (VTime (a - b))"
| "py_sub (VDelta a) (VDelta b) = Inr (VDelta (a - b))"
| "py_sub _ _ = Inl TypeError"

fun py_truediv :: "val \<Rightarrow> val \<Rightarrow> error + val" where
  "py_truediv (VNum a) (VNum b) = (if b = 0 then Inl ZeroDivisionError else Inr (VNum (a / b)))"
| "py_truediv (VDelta a) (VDelta b) = (if b = 0 then Inl ZeroDivisionError else Inr (VNum (a / b)))"
| "py_truediv (VDelta a) (VNum b) = (if b = 0 then Inl ZeroDivisionError else Inr (VDelta (a / b)))"
| "py_truediv _ _ = Inl TypeError"

text \<open>
  \<^verbatim>\<open>np.array(table)\<close> of rows that hold a datetime, numbers and strings is a two-dimensional
  array of dtype \<^verbatim>\<open>object\<close> whose cells are the rows' Python values, provided the table has a
  row and all rows have one length (a cell that is a list stays one cell, as numpy builds
  such arrays up to version 1.23); \<^verbatim>\<open>np.array([])\<close> and a table with rows of different
  lengths are one-dimensional, and \<^verbatim>\<open>a[:, i]\<close> on them raises IndexError. The model keeps
  the table as the list of its rows. The key lists that the source also turns into arrays
  keep their values.
\<close>

definition is_2d :: "val list list \<Rightarrow> bool" where
  "is_2d tbl = (tbl \<noteq> [] \<and> list_all (\<lambda>r. length r = length (hd tbl)) tbl)"

text \<open>\<^verbatim>\<open>tbl[:, i]\<close>\<close>

definition np_col :: "val list list \<Rightarrow> nat \<Rightarrow> error + val list" where
  "np_col tbl i =
     (if is_2d tbl \<and> i < length (hd tbl) then Inr (map (\<lambda>r. r ! i) tbl) else Inl IndexError)"

text \<open>\<^verbatim>\<open>tbl[tbl[:, ki] == n]\<close>: the rows whose cell \<open>ki\<close> equals \<open>n\<close>\<close>

definition np_where :: "val list list \<Rightarrow> nat \<Rightarrow> val \<Rightarrow> error + val list list" where
  "np_where tbl ki n = bindE (np_col tbl ki) (\<lambda>_. Inr (filter (\<lambda>r. r ! ki = n) tbl))"

text \<open>\<^verbatim>\<open>tbl[tbl[:, ki] == n][:, ci]\<close>: the selection keeps the column count of \<open>tbl\<close>\<close>

definition np_col_where :: "val list list \<Rightarrow> nat \<Rightarrow> val \<Rightarrow> nat \<Rightarrow> error + val list" where
  "np_col_where tbl ki n ci =
     bindE (np_where tbl ki n)
       (\<lambda>sel. if ci < length (hd tbl) then Inr (map (\<lambda>r. r ! ci) sel) else Inl IndexError)"

text \<open>\<^verbatim>\<open>.sum()\<close> of an object column: \<open>0\<close> when empty, else \<^verbatim>\<open>+\<close> folded from the left.\<close>

fun sum_from :: "val \<Rightarrow> val list \<Rightarrow> error + val" where
  "sum_from acc [] = Inr acc"
| "sum_from acc (x # xs) = bindE (py_add acc x) (\<lambda>a. sum_from a xs)"

definition np_sum :: "val list \<Rightarrow> error + val" where
  "np_sum xs = (case xs of [] \<Rightarrow> Inr (VNum 0) | x # ys \<Rightarrow> sum_from x ys)"

text \<open>
  \<^verbatim>\<open>sorted(d.items(), key=lambda k: k[1], reverse=r)\<close>. Sorting two or more values compares
  them with \<^verbatim>\<open><\<close>, which raises TypeError unless they are of one kind that Python orders; the
  sort is stable, and with \<^verbatim>\<open>reverse=True\<close> equal values keep their order too (CPython
  reverses, sorts and reverses again).
\<close>

fun kind :: "val \<Rightarrow> nat" where
  "kind VNone = 0"
| "kind (VNum _) = 1"
| "kind (VStr _) = 2"
| "kind (VTime _) = 3"
| "kind (VDelta _) = 4"
| "kind (VArr _) = 5"

definition orderable :: "val list \<Rightarrow> bool" where
  "orderable vs =
     (length vs \<le> 1 \<or> (list_all (\<lambda>v. kind v = kind (hd vs)) vs \<and> kind (hd vs) \<noteq> 0))"

fun order_key :: "val \<Rightarrow> rat \<times> string \<times> string list" where
  "order_key VNone = (0, [], [])"
| "order_key (VNum a) = (a, [], [])"
| "order_key (VStr s) = (0, s, [])"
| "order_key (VTime a) = (a, [], [])"
| "order_key (VDelta a) = (a, [], [])"
| "order_key (VArr xs) = (0, [], xs)"

definition py_sorted :: "bool \<Rightarrow> ('k \<times> val) list \<Rightarrow> error + ('k \<times> val) list" where
  "py_sorted reverse items =
     (if orderable (map snd items)
      then Inr (if reverse then rev (sort_key (\<lambda>p. order_key (snd p)) (rev items))
                else sort_key (\<lambda>p. order_key (snd p)) items)
      else Inl TypeError)"

section \<open>The period splitter: \<^verbatim>\<open>__get_two_values\<close>\<close>

record split_state =
  table_hh1 :: "val list list"
  table_hh2 :: "val list list"
  hh_vals :: "val list"
  names_hh1 :: "val list"
  names_hh2 :: "val list"

definition init_state :: split_state where
  "init_state = \<lparr>table_hh1 = [], table_hh2 = [], hh_vals = [], names_hh1 = [], names_hh2 = []\<rparr>"

text \<open>The loop over \<^verbatim>\<open>table\<close>; \<open>Inr s\<close> in the first branch is the \<^verbatim>\<open>break\<close>.\<close>

fun scan_rows :: "nat \<Rightarrow> nat \<Rightarrow> val list list \<Rightarrow> split_state \<Rightarrow> error + split_state" where
  "scan_rows ti ni [] s = Inr s"
| "scan_rows ti ni (e # es) s =
     bindE (py_nth e ti) (\<lambda>t.
       if t \<notin> set (hh_vals s) \<and> length (hh_vals s) = 2 then Inr s
       else
         let s1 = (if t \<notin> set (hh_vals s) then s\<lparr>hh_vals := hh_vals s @ [t]\<rparr> else s) in
         if length (hh_vals s1) = 1 then
           bindE (py_nth e ni) (\<lambda>n.
             scan_rows ti ni es
               (s1\<lparr>table_hh1 := table_hh1 s1 @ [e],
                   names_hh1 := append_unique (names_hh1 s1) n\<rparr>))
         else if length (hh_vals s1) = 2 then
           bindE (py_nth e ni) (\<lambda>n.
             scan_rows ti ni es
               (s1\<lparr>table_hh2 := table_hh2 s1 @ [e],
                   names_hh2 := append_unique (names_hh2 s1) n\<rparr>))
         else scan_rows ti ni es s1)"

text \<open>
  \<^verbatim>\<open>response[0]\<close> raises IndexError on an empty response; \<^verbatim>\<open>columns.index\<close> raises ValueError
  for a column the first row does not have.
\<close>

definition get_two_values ::
  "response \<Rightarrow> string \<Rightarrow> string \<Rightarrow>
   error + (val list list \<times> val list list \<times> string list \<times> val list \<times> val list)" where
  "get_two_values response time_index name_index =
     (case response of
        [] \<Rightarrow> Inl IndexError
      | r0 # _ \<Rightarrow>
          let columns = map fst r0 in
          bindE (list_index columns name_index) (\<lambda>name_index_val.
          bindE (list_index columns time_index) (\<lambda>time_index_value.
          let table = map (map snd) response in
          bindE (scan_rows time_index_value name_index_val table init_state) (\<lambda>s.
            Inr (table_hh1 s, table_hh2 s, columns, names_hh1 s, names_hh2 s)))))"

section \<open>The time step: \<^verbatim>\<open>__handle_timestep\<close>\<close>

text \<open>
  A time step is a string, an \<^verbatim>\<open>int\<close>, or any other Python value (a float, a bool, \<^verbatim>\<open>None\<close>,
  ...), for which \<^verbatim>\<open>type(time_step) == int\<close> is false. The bucketing SQL function the source
  returns as a format string is named by a constructor.
\<close>

datatype time_step = Token string | Minutes int | Other

datatype bucket_fn =
    ToStartOfHour
  | ToStartOfDay
  | ToStartOfWeek
  | ToStartOfInterval int

definition handle_timestep :: "time_step \<Rightarrow> error + (bucket_fn \<times> int)" where
  "handle_timestep ts =
     (if ts = Token ''hour'' then Inr (ToStartOfHour, 3600)
      else if ts = Token ''day'' then Inr (ToStartOfDay, 24 * 3600)
      else if ts = Token ''week'' then Inr (ToStartOfWeek, 7 * 24 * 3600)
      else (case ts of
              Minutes n \<Rightarrow> Inr (ToStartOfInterval n, n * 60)
            | _ \<Rightarrow> Inl AssertionError))"

section \<open>The data source\<close>

text \<open>
  Each query function builds one SQL text from the project, the window, the bucketing
  function and the bucket width, and runs it on the connection. The text is determined by
  these parameters and the event filter, so a query is modelled by them. The connection
  answers a query with rows or raises; the queries executed on it are recorded in order.
  A query function called without a connection opens one of its own and uses it the same
  way, so the connection is always a parameter here.
\<close>

datatype event_type = ERROR | REQUEST | PERFORMANCE | ISSUE_click_rage

record query =
  q_event :: event_type
  q_project :: int
  q_start :: string
  q_end :: string
  q_function :: bucket_fn
  q_steps :: int

type_synonym conn = "query \<Rightarrow> error + response"

definition execute :: "conn \<Rightarrow> query \<Rightarrow> query list \<Rightarrow> (error + response) \<times> query list" where
  "execute conn q tr = (conn q, tr @ [q])"

text \<open>
  What a query function returns: the dict with \<^verbatim>\<open>ratio\<close>, \<^verbatim>\<open>increase\<close> and \<^verbatim>\<open>new_events\<close>, or the
  rows of the data source as they came.
\<close>

record comparison =
  ratio :: "(val \<times> val) list"
  increase :: "(val \<times> val) list"
  new_events :: "val list"

datatype slot = Compared comparison | Raw response

section \<open>New and common keys\<close>

text \<open>
  \<^verbatim>\<open>new = [x for x in this_period if x not in last_period]\<close> and
  \<^verbatim>\<open>common = [x for x in this_period if x not in new]\<close>, as both
  \<^verbatim>\<open>query_requests_by_period\<close> and \<^verbatim>\<open>query_most_errors_by_period\<close> compute them.
\<close>

definition new_keys :: "'a list \<Rightarrow> 'a list \<Rightarrow> 'a list" where
  "new_keys this_period last_period = [x \<leftarrow> this_period. x \<notin> set last_period]"

definition common_keys :: "'a list \<Rightarrow> 'a list \<Rightarrow> 'a list" where
  "common_keys this_period new = [x \<leftarrow> this_period. x \<notin> set new]"

section \<open>Errors: \<^verbatim>\<open>query_most_errors_by_period\<close>\<close>

text \<open>The loop filling \<^verbatim>\<open>percentage_errors\<close>.\<close>

fun percentage_loop ::
  "val list list \<Rightarrow> nat \<Rightarrow> nat \<Rightarrow> val \<Rightarrow> val list \<Rightarrow> (val \<times> val) list \<Rightarrow> error + (val \<times> val) list" where
  "percentage_loop tbl1 names_idx sessions_idx tot [] d = Inr d"
| "percentage_loop tbl1 names_idx sessions_idx tot (n # ns) d =
     bindE (np_col_where tbl1 names_idx n sessions_idx) (\<lambda>c.
     bindE (np_sum c) (\<lambda>s.
     bindE (py_truediv s tot) (\<lambda>p.
       percentage_loop tbl1 names_idx sessions_idx tot ns (dict_set d n p))))"

text \<open>
  The loop filling \<^verbatim>\<open>error_increase\<close>. The source sums the column \<^verbatim>\<open>names_idx\<close> of the rows of
  each period that carry the name, and subtracts the sums.
\<close>

fun increase_loop ::
  "val list list \<Rightarrow> val list list \<Rightarrow> nat \<Rightarrow> val list \<Rightarrow> (val \<times> val) list \<Rightarrow> error + (val \<times> val) list" where
  "increase_loop tbl1 tbl2 names_idx [] d = Inr d"
| "increase_loop tbl1 tbl2 names_idx (n # ns) d =
     bindE (np_col_where tbl1 names_idx n names_idx) (\<lambda>c1.
     bindE (np_sum c1) (\<lambda>s1.
     bindE (np_col_where tbl2 names_idx n names_idx) (\<lambda>c2.
     bindE (np_sum c2) (\<lambda>s2.
     bindE (py_sub s1 s2) (\<lambda>v.
       increase_loop tbl1 tbl2 names_idx ns (dict_set d n v))))))"

text \<open>The function from the rows of the data source on (lines 104 to 124).\<close>

definition most_errors_by_period :: "response \<Rightarrow> error + comparison" where
  "most_errors_by_period res =
     bindE (get_two_values res ''hh'' ''names'')
       (\<lambda>(tbl1, tbl2, columns, this_period_errors, last_period_errors).
     let new_errors = new_keys this_period_errors last_period_errors;
         common_errors = common_keys this_period_errors new_errors in
     bindE (list_index columns ''sessions'') (\<lambda>sessions_idx.
     bindE (list_index columns ''names'') (\<lambda>names_idx.
     bindE (np_col tbl1 sessions_idx) (\<lambda>c.
     bindE (np_sum c) (\<lambda>tot.
     bindE (percentage_loop tbl1 names_idx sessions_idx tot this_period_errors [])
       (\<lambda>percentage_errors.
     bindE (increase_loop tbl1 tbl2 names_idx common_errors []) (\<lambda>error_increase.
     bindE (py_sorted True percentage_errors) (\<lambda>r.
     bindE (py_sorted True error_increase) (\<lambda>i.
       Inr \<lparr>ratio = r, increase = i, new_events = new_errors\<rparr>)))))))))"

definition query_most_errors_by_period ::
  "int \<Rightarrow> string \<Rightarrow> string \<Rightarrow> time_step \<Rightarrow> conn \<Rightarrow> query list \<Rightarrow> (error + slot) \<times> query list" where
  "query_most_errors_by_period project_id start_time end_time ts conn tr =
     (case handle_timestep ts of
        Inl e \<Rightarrow> (Inl e, tr)
      | Inr (fn, steps) \<Rightarrow>
          (case execute conn
                  \<lparr>q_event = ERROR, q_project = project_id, q_start = start_time,
                   q_end = end_time, q_function = fn, q_steps = steps\<rparr> tr of
             (Inl e, tr') \<Rightarrow> (Inl e, tr')
           | (Inr res, tr') \<Rightarrow>
               (bindE (most_errors_by_period res) (\<lambda>c. Inr (Compared c)), tr')))"

section \<open>Requests: \<^verbatim>\<open>query_requests_by_period\<close>\<close>

text \<open>
  \<^verbatim>\<open>.mean()\<close> of an object column and \<^verbatim>\<open>.argsort()\<close> are numpy's: the mean is a floating-point
  value and the order \<^verbatim>\<open>argsort\<close> gives to equal cells is not fixed by its default sort. Both
  are parameters of the model, so that what is proved holds whatever they return.
\<close>

record numpy_ops =
  np_mean :: "val list \<Rightarrow> error + val"
  np_argsort :: "val list \<Rightarrow> error + nat list"

text \<open>\<^verbatim>\<open>sel[:, ci]\<close> for a selection \<open>sel\<close> of the rows of \<open>tbl\<close>\<close>

definition sel_col :: "val list list \<Rightarrow> val list list \<Rightarrow> nat \<Rightarrow> error + val list" where
  "sel_col tbl sel ci =
     (if ci < length (hd tbl) then Inr (map (\<lambda>r. r ! ci) sel) else Inl IndexError)"

text \<open>\<^verbatim>\<open>a[perm]\<close> for an index array\<close>

fun take_rows :: "'a list \<Rightarrow> nat list \<Rightarrow> error + 'a list" where
  "take_rows xs [] = Inr []"
| "take_rows xs (i # is) =
     bindE (py_nth xs i) (\<lambda>x. bindE (take_rows xs is) (\<lambda>r. Inr (x # r)))"

text \<open>\<^verbatim>\<open>a + b\<close> on two object columns of one length\<close>

fun add_cols :: "val list \<Rightarrow> val list \<Rightarrow> error + val list" where
  "add_cols (x # xs) (y # ys) =
     bindE (py_add x y) (\<lambda>z. bindE (add_cols xs ys) (\<lambda>zs. Inr (z # zs)))"
| "add_cols _ _ = Inr []"

text \<open>
  The loop over \<^verbatim>\<open>common_names\<close>. Its state is \<^verbatim>\<open>delta_duration\<close>, \<^verbatim>\<open>delta_success\<close> and the
  variable \<^verbatim>\<open>d1_tmp\<close>, which is unbound until the body has run once.
\<close>

fun delta_loop ::
  "numpy_ops \<Rightarrow> val list list \<Rightarrow> val list list \<Rightarrow> nat \<Rightarrow> nat \<Rightarrow> nat \<Rightarrow> val list \<Rightarrow>
   (val \<times> val) list \<times> (val \<times> val) list \<times> val list list option \<Rightarrow>
   error + (val \<times> val) list \<times> (val \<times> val) list \<times> val list list option" where
  "delta_loop np tbl1 tbl2 source_idx duration_idx success_idx [] st = Inr st"
| "delta_loop np tbl1 tbl2 source_idx duration_idx success_idx (n # ns)
     (delta_duration, delta_success, _) =
     bindE (np_where tbl1 source_idx n) (\<lambda>d1_tmp.
     bindE (np_where tbl2 source_idx n) (\<lambda>d2_tmp.
     bindE (sel_col tbl1 d1_tmp duration_idx) (\<lambda>c1.
     bindE (np_mean np c1) (\<lambda>m1.
     bindE (sel_col tbl2 d2_tmp duration_idx) (\<lambda>c2.
     bindE (np_mean np c2) (\<lambda>m2.
     bindE (py_sub m1 m2) (\<lambda>dd.
     bindE (sel_col tbl1 d1_tmp success_idx) (\<lambda>u1.
     bindE (np_mean np u1) (\<lambda>k1.
     bindE (sel_col tbl2 d2_tmp success_idx) (\<lambda>u2.
     bindE (np_mean np u2) (\<lambda>k2.
     bindE (py_sub k1 k2) (\<lambda>ds.
       delta_loop np tbl1 tbl2 source_idx duration_idx success_idx ns
         (dict_set delta_duration n dd, dict_set delta_success n ds, Some d1_tmp)
     ))))))))))))"

text \<open>The function from the rows of the data source on (lines 64 to 86).\<close>

definition requests_by_period :: "numpy_ops \<Rightarrow> response \<Rightarrow> error + comparison" where
  "requests_by_period np res =
     bindE (get_two_values res ''hh'' ''source'')
       (\<lambda>(tbl1, tbl2, columns, this_period_hosts, last_period_hosts).
     let new_hosts = new_keys this_period_hosts last_period_hosts;
         common_names = common_keys this_period_hosts new_hosts in
     bindE (list_index columns ''source'') (\<lambda>source_idx.
     bindE (list_index columns ''avg_duration'') (\<lambda>duration_idx.
     bindE (list_index columns ''success_rate'') (\<lambda>success_idx.
     bindE (delta_loop np tbl1 tbl2 source_idx duration_idx success_idx common_names
              ([], [], None)) (\<lambda>(delta_duration, delta_success, d1_opt).
     bindE (list_index columns ''names'') (\<lambda>names_idx.
       (case d1_opt of
          None \<Rightarrow> Inl UnboundLocalError
        | Some d1_tmp \<Rightarrow>
            bindE (sel_col tbl1 d1_tmp success_idx) (\<lambda>keys.
            bindE (np_argsort np keys) (\<lambda>perm.
            bindE (take_rows d1_tmp perm) (\<lambda>d1_sorted.
            bindE (sel_col tbl1 d1_sorted names_idx) (\<lambda>hosts.
            bindE (sel_col tbl1 d1_sorted source_idx) (\<lambda>paths.
            bindE (add_cols hosts paths) (\<lambda>labels.
            bindE (sel_col tbl1 d1_sorted success_idx) (\<lambda>rates.
            bindE (py_sorted False delta_success) (\<lambda>i.
              Inr \<lparr>ratio = zip labels rates, increase = i, new_events = new_hosts\<rparr>
            )))))))))))))))"

definition query_requests_by_period ::
  "int \<Rightarrow> string \<Rightarrow> string \<Rightarrow> time_step \<Rightarrow> numpy_ops \<Rightarrow> conn \<Rightarrow> query list \<Rightarrow>
   (error + slot) \<times> query list" where
  "query_requests_by_period project_id start_time end_time ts np conn tr =
     (case handle_timestep ts of
        Inl e \<Rightarrow> (Inl e, tr)
      | Inr (fn, steps) \<Rightarrow>
          (case execute conn
                  \<lparr>q_event = REQUEST, q_project = project_id, q_start = start_time,
                   q_end = end_time, q_function = fn, q_steps = steps\<rparr> tr of
             (Inl e, tr') \<Rightarrow> (Inl e, tr')
           | (Inr res, tr') \<Rightarrow>
               (bindE (requests_by_period np res) (\<lambda>c. Inr (Compared c)), tr')))"

section \<open>Resources and rage clicks\<close>

text \<open>
  \<^verbatim>\<open>query_cpu_memory_by_period\<close> and \<^verbatim>\<open>query_click_rage_by_period\<close> return \<^verbatim>\<open>res\<close> right after
  the query; the statements that follow the \<^verbatim>\<open>return\<close> in the source (the comparison of the
  two periods) are never executed.
\<close>

definition query_cpu_memory_by_period ::
  "int \<Rightarrow> string \<Rightarrow> string \<Rightarrow> time_step \<Rightarrow> conn \<Rightarrow> query list \<Rightarrow> (error + slot) \<times> query list" where
  "query_cpu_memory_by_period project_id start_time end_time ts conn tr =
     (case handle_timestep ts of
        Inl e \<Rightarrow> (Inl e, tr)
      | Inr (fn, steps) \<Rightarrow>
          (case execute conn
                  \<lparr>q_event = PERFORMANCE, q_project = project_id, q_start = start_time,
                   q_end = end_time, q_function = fn, q_steps = steps\<rparr> tr of
             (Inl e, tr') \<Rightarrow> (Inl e, tr')
           | (Inr res, tr') \<Rightarrow> (Inr (Raw res), tr')))"

definition query_click_rage_by_period ::
  "int \<Rightarrow> string \<Rightarrow> string \<Rightarrow> time_step \<Rightarrow> conn \<Rightarrow> query list \<Rightarrow> (error + slot) \<times> query list" where
  "query_click_rage_by_period project_id start_time end_time ts conn tr =
     (case handle_timestep ts of
        Inl e \<Rightarrow> (Inl e, tr)
      | Inr (fn, steps) \<Rightarrow>
          (case execute conn
                  \<lparr>q_event = ISSUE_click_rage, q_project = project_id, q_start = start_time,
                   q_end = end_time, q_function = fn, q_steps = steps\<rparr> tr of
             (Inl e, tr') \<Rightarrow> (Inl e, tr')
           | (Inr res, tr') \<Rightarrow> (Inr (Raw res), tr')))"

section \<open>The report: \<^verbatim>\<open>fetch_selected\<close>\<close>

type_synonym report = "string \<rightharpoonup> slot"

text \<open>
  \<^verbatim>\<open>if name in selectedEvents: output[name] = run(...)\<close>, after the statements before it:
  an exception raised earlier, or by \<open>run\<close>, leaves the function.
\<close>

definition select_step ::
  "string list \<Rightarrow> string \<Rightarrow> (query list \<Rightarrow> (error + slot) \<times> query list) \<Rightarrow>
   (error + report) \<times> query list \<Rightarrow> (error + report) \<times> query list" where
  "select_step selectedEvents name run st =
     (case st of
        (Inl e, tr) \<Rightarrow> (Inl e, tr)
      | (Inr output, tr) \<Rightarrow>
          if name \<in> set selectedEvents then
            (case run tr of
               (Inl e, tr') \<Rightarrow> (Inl e, tr')
             | (Inr v, tr') \<Rightarrow> (Inr (output(name \<mapsto> v)), tr'))
          else (Inr output, tr))"

definition fetch_selected ::
  "string list \<Rightarrow> int \<Rightarrow> string \<Rightarrow> string \<Rightarrow> time_step \<Rightarrow> numpy_ops \<Rightarrow> conn \<Rightarrow> query list \<Rightarrow>
   (error + report) \<times> query list" where
  "fetch_selected selectedEvents project_id start_time end_time ts np conn tr =
     (if \<not> 0 < length selectedEvents then (Inl AssertionError, tr)
      else
        let st0 = (Inr Map.empty, tr);
            st1 = select_step selectedEvents ''errors''
                    (query_most_errors_by_period project_id start_time end_time ts conn) st0;
            st2 = select_step selectedEvents ''network''
                    (query_requests_by_period project_id start_time end_time ts np conn) st1;
            st3 = select_step selectedEvents ''rage''
                    (query_click_rage_by_period project_id start_time end_time ts conn) st2;
            st4 = select_step selectedEvents ''resources''
                    (query_cpu_memory_by_period project_id start_time end_time ts conn) st3
        in st4)"

section \<open>What the splitter computes, stated without the loop\<close>

text \<open>
  The distinct values of a list in the order of their first occurrence: what the loop's
  \<^verbatim>\<open>if n not in names: names.append(n)\<close> builds from the names of the rows it keeps.
\<close>

definition first_seen :: "'a list \<Rightarrow> 'a list" where
  "first_seen xs = foldl append_unique [] xs"

text \<open>
  The rows of a table the scan assigns to each period, for the time column \<open>ti\<close>: the current
  period is the longest prefix that carries the first row's timestamp; the previous period
  is the longest prefix of the rest that carries one of the first two distinct timestamps;
  the scan stops at the first row of \<open>unread_rows\<close> and never looks at the rows after it.
\<close>

definition current_rows :: "nat \<Rightarrow> val list list \<Rightarrow> val list list" where
  "current_rows ti tbl = takeWhile (\<lambda>e. e ! ti = hd tbl ! ti) tbl"

definition later_rows :: "nat \<Rightarrow> val list list \<Rightarrow> val list list" where
  "later_rows ti tbl = dropWhile (\<lambda>e. e ! ti = hd tbl ! ti) tbl"

definition previous_rows :: "nat \<Rightarrow> val list list \<Rightarrow> val list list" where
  "previous_rows ti tbl =
     takeWhile (\<lambda>e. e ! ti = hd tbl ! ti \<or> e ! ti = hd (later_rows ti tbl) ! ti) (later_rows ti tbl)"

definition unread_rows :: "nat \<Rightarrow> val list list \<Rightarrow> val list list" where
  "unread_rows ti tbl =
     dropWhile (\<lambda>e. e ! ti = hd tbl ! ti \<or> e ! ti = hd (later_rows ti tbl) ! ti) (later_rows ti tbl)"

text \<open>
  \<^verbatim>\<open>r[c]\<close> for a row dict; the rows of a response that carry the bucket timestamp \<open>t\<close>, as
  the lists of their values (like the source's \<^verbatim>\<open>table\<close>); and their distinct names.
\<close>

definition cell :: "row \<Rightarrow> string \<Rightarrow> val" where
  "cell r c = the (map_of r c)"

definition rows_at :: "response \<Rightarrow> string \<Rightarrow> rat \<Rightarrow> val list list" where
  "rows_at response time_index t = map (map snd) [r \<leftarrow> response. cell r time_index = VTime t]"

definition keys_at :: "response \<Rightarrow> string \<Rightarrow> string \<Rightarrow> rat \<Rightarrow> val list" where
  "keys_at response time_index name_index t =
     first_seen (map (\<lambda>r. cell r name_index) [r \<leftarrow> response. cell r time_index = VTime t])"

section \<open>The rows of the errors query\<close>

text \<open>
  The SELECT clause of \<^verbatim>\<open>query_most_errors_by_period\<close> fixes the columns of its rows:
  \<^verbatim>\<open>hh\<close> (a DateTime, here in seconds), \<^verbatim>\<open>sessions\<close> (a count), \<^verbatim>\<open>names\<close> (the error name, a
  string or NULL) and \<^verbatim>\<open>sources\<close> (an array of strings). \<open>errors_dict\<close> is the dict the
  client returns for such a row, \<open>errors_cells\<close> the list of its values.
\<close>

datatype errors_row =
  ErrorsRow (e_hh: rat) (e_sessions: int) (e_names: "string option") (e_sources: "string list")

definition name_val :: "string option \<Rightarrow> val" where
  "name_val n = (case n of None \<Rightarrow> VNone | Some s \<Rightarrow> VStr s)"

definition errors_dict :: "errors_row \<Rightarrow> row" where
  "errors_dict r =
     [(''hh'', VTime (e_hh r)),
      (''sessions'', VNum (of_int (e_sessions r))),
      (''names'', name_val (e_names r)),
      (''sources'', VArr (e_sources r))]"

definition errors_cells :: "errors_row \<Rightarrow> val list" where
  "errors_cells r = map snd (errors_dict r)"

text \<open>
  The two periods of a list of such rows, as \<open>current_rows\<close> and \<open>previous_rows\<close> give them
  for the column \<^verbatim>\<open>hh\<close>.
\<close>

definition current_period :: "errors_row list \<Rightarrow> errors_row list" where
  "current_period rows = takeWhile (\<lambda>r. e_hh r = e_hh (hd rows)) rows"

definition earlier_periods :: "errors_row list \<Rightarrow> errors_row list" where
  "earlier_periods rows = dropWhile (\<lambda>r. e_hh r = e_hh (hd rows)) rows"

definition previous_period :: "errors_row list \<Rightarrow> errors_row list" where
  "previous_period rows =
     takeWhile (\<lambda>r. e_hh r = e_hh (hd rows) \<or> e_hh r = e_hh (hd (earlier_periods rows)))
       (earlier_periods rows)"

text \<open>
  The session count of the rows that carry a name, the session count of all rows, the
  share of a name (the quotient of the two), and the shares of the names of a period in
  first-seen order.
\<close>

definition key_sessions :: "errors_row list \<Rightarrow> val \<Rightarrow> int" where
  "key_sessions rows n = sum_list (map e_sessions [r \<leftarrow> rows. name_val (e_names r) = n])"

definition total_sessions :: "errors_row list \<Rightarrow> int" where
  "total_sessions rows = sum_list (map e_sessions rows)"

definition session_share :: "errors_row list \<Rightarrow> val \<Rightarrow> rat" where
  "session_share cur k = of_int (key_sessions cur k) / of_int (total_sessions cur)"

definition shares :: "errors_row list \<Rightarrow> (val \<times> val) list" where
  "shares cur =
     map (\<lambda>k. (k, VNum (of_int (key_sessions cur k) / of_int (total_sessions cur))))
       (first_seen (map (\<lambda>r. name_val (e_names r)) cur))"

section \<open>Concrete inputs\<close>

text \<open>
  An instance of the numpy operations for concrete runs: the mean as the exact quotient of
  sum and count, and an \<^verbatim>\<open>argsort\<close> that keeps equal cells in their order.
\<close>

definition exact_numpy :: numpy_ops where
  "exact_numpy =
     \<lparr>np_mean = (\<lambda>xs. bindE (np_sum xs) (\<lambda>s. py_truediv s (VNum (of_nat (length xs))))),
      np_argsort = (\<lambda>xs. if orderable xs
                          then Inr (map fst (sort_key (\<lambda>p. order_key (snd p)) (zip [0..<length xs] xs)))
                          else Inl TypeError)\<rparr>"

text \<open>
  The query each function sends for project 1307, the window from 2022-04-19 to 2022-04-21
  and the time step \<^verbatim>\<open>'hour'\<close>.
\<close>

definition hour_query :: "event_type \<Rightarrow> query" where
  "hour_query ev =
     \<lparr>q_event = ev, q_project = 1307, q_start = ''2022-04-19'', q_end = ''2022-04-21'',
      q_function = ToStartOfHour, q_steps = 3600\<rparr>"

text \<open>
  \<open>quiet_rows\<close> is one bucket in which no error was recorded (the outer join of the query
  yields such a row, with a count of zero); \<open>quiet_conn\<close> answers the errors query with it
  and every other query with \<open>rage_rows\<close>.
\<close>

definition quiet_rows :: "errors_row list" where
  "quiet_rows = [ErrorsRow 7200 0 (Some []) []]"

definition rage_rows :: response where
  "rage_rows = [[(''hh'', VTime 7200), (''sessions'', VNum 3), (''names'', VStr ''example.com''),
                 (''sources'', VArr [''/''])]]"

definition quiet_conn :: conn where
  "quiet_conn q = (if q_event q = ERROR then Inr (map errors_dict quiet_rows) else Inr rage_rows)"

text \<open>
  Rows of the errors query: one name in both periods; two names now, one of them in the
  previous period too; no name in both periods; one period only.
\<close>

definition common_key_rows :: "errors_row list" where
  "common_key_rows = [ErrorsRow 7200 10 (Some ''B'') [], ErrorsRow 3600 4 (Some ''B'') []]"

definition overlapping_rows :: "errors_row list" where
  "overlapping_rows =
     [ErrorsRow 7200 3 (Some ''A'') [], ErrorsRow 7200 1 (Some ''B'') [],
      ErrorsRow 3600 4 (Some ''B'') []]"

definition disjoint_key_rows :: "errors_row list" where
  "disjoint_key_rows =
     [ErrorsRow 7200 3 (Some ''A'') [], ErrorsRow 7200 1 (Some ''B'') [],
      ErrorsRow 3600 4 (Some ''C'') []]"

definition one_period_rows :: "errors_row list" where
  "one_period_rows = [ErrorsRow 7200 3 (Some ''A'') [], ErrorsRow 7200 1 (Some ''B'') []]"

text \<open>
  Rows with the timestamps \<open>[T2, T2, T1, T1, T0]\<close>; rows that are not in descending order;
  rows of the requests query with one period only.
\<close>

definition five_rows :: response where
  "five_rows =
     [[(''hh'', VTime 7200), (''names'', VStr ''a'')],
      [(''hh'', VTime 7200), (''names'', VStr ''b'')],
      [(''hh'', VTime 3600), (''names'', VStr ''a'')],
      [(''hh'', VTime 3600), (''names'', VStr ''c'')],
      [(''hh'', VTime 0), (''names'', VStr ''d'')]]"

definition unordered_rows :: response where
  "unordered_rows =
     [[(''hh'', VTime 7200), (''names'', VStr ''a'')],
      [(''hh'', VTime 3600), (''names'', VStr ''b'')],
      [(''hh'', VTime 7200), (''names'', VStr ''c'')]]"

definition one_period_requests :: response where
  "one_period_requests =
     [[(''hh'', VTime 7200), (''sessions'', VNum 3), (''success_rate'', VNum 1),
       (''names'', VStr ''example.com''), (''source'', VStr ''/a''), (''avg_duration'', VNum 20)]]"

text \<open>
  A connection that answers the requests query with rows of one period only and every
  other query with \<open>rage_rows\<close>.
\<close>

definition one_period_conn :: conn where
  "one_period_conn q = (if q_event q = REQUEST then Inr one_period_requests else Inr rage_rows)"

section \<open>The course of a call\<close>

text \<open>
  A category has passed when it was not selected, or its query function ran on the trace
  \<open>tr\<close> without raising; \<open>tr'\<close> is the trace it left.
\<close>

definition passed ::
  "string list \<Rightarrow> string \<Rightarrow> (query list \<Rightarrow> (error + slot) \<times> query list) \<Rightarrow>
   query list \<Rightarrow> query list \<Rightarrow> bool" where
  "passed sel name run tr tr' =
     (if name \<in> set sel then \<not> isl (fst (run tr)) \<and> snd (run tr) = tr' else tr' = tr)"

section \<open>Basic facts\<close>

lemmas eval_defs =
  most_errors_by_period_def get_two_values_def errors_dict_def name_val_def init_state_def
  py_nth_def append_unique_def new_keys_def common_keys_def np_col_def is_2d_def np_sum_def
  np_col_where_def np_where_def py_sorted_def orderable_def Let_def

lemma bindE_Inl [simp]: "bindE (Inl e) f = Inl e" by (simp add: bindE_def)

lemma bindE_Inr [simp]: "bindE (Inr x) f = f x" by (simp add: bindE_def)

lemma bindE_eq_Inr: "bindE m f = Inr y \<longleftrightarrow> (\<exists>x. m = Inr x \<and> f x = Inr y)"
  by (cases m) auto

lemma list_index_in:
  "x \<in> set xs \<Longrightarrow> \<exists>i. list_index xs x = Inr i \<and> i < length xs"
  by (induction xs) auto

lemma cell_index:
  "list_index (map fst r) c = Inr i \<Longrightarrow> map snd r ! i = cell r c"
proof (induction r arbitrary: i)
  case Nil
  then show ?case by simp
next
  case (Cons p r)
  show ?case
  proof (cases "fst p = c")
    case True
    with Cons.prems show ?thesis by (simp add: cell_def)
  next
    case False
    with Cons.prems obtain j where j: "list_index (map fst r) c = Inr j" "i = Suc j"
      by (auto simp: bindE_eq_Inr)
    from Cons.IH[OF j(1)] False j(2) show ?thesis by (simp add: cell_def)
  qed
qed

lemma dict_set_fresh: "k \<notin> fst ` set d \<Longrightarrow> dict_set d k v = d @ [(k, v)]"
  by (induction d) auto

lemma set_foldl_append_unique: "set (foldl append_unique acc xs) = set acc \<union> set xs"
  by (induction xs arbitrary: acc) (auto simp: append_unique_def)

lemma distinct_foldl_append_unique: "distinct acc \<Longrightarrow> distinct (foldl append_unique acc xs)"
  by (induction xs arbitrary: acc) (auto simp: append_unique_def)

lemma set_first_seen [simp]: "set (first_seen xs) = set xs"
  by (simp add: first_seen_def set_foldl_append_unique)

lemma distinct_first_seen [simp]: "distinct (first_seen xs)"
  by (simp add: first_seen_def distinct_foldl_append_unique)

lemma first_seen_Nil_iff [simp]: "first_seen xs = [] \<longleftrightarrow> xs = []"
  by (metis set_first_seen set_empty)

section \<open>The scan of the splitter\<close>

text \<open>
  Once two timestamps have been seen, the scan keeps the rows that carry one of them and
  stops at the first row that carries another; before that, it keeps the rows that carry
  the first timestamp. Nothing is required of the rows after the one that stops the scan.
\<close>

lemma scan_phase2:
  assumes "hh_vals s = [t0, t1]"
    and "list_all (\<lambda>e. ti < length e \<and> ni < length e) (takeWhile (\<lambda>e. e ! ti = t0 \<or> e ! ti = t1) tbl)"
    and "case dropWhile (\<lambda>e. e ! ti = t0 \<or> e ! ti = t1) tbl of [] \<Rightarrow> True | e # _ \<Rightarrow> ti < length e"
  shows "scan_rows ti ni tbl s =
         Inr (s\<lparr>table_hh2 := table_hh2 s @ takeWhile (\<lambda>e. e ! ti = t0 \<or> e ! ti = t1) tbl,
                names_hh2 := foldl append_unique (names_hh2 s)
                  (map (\<lambda>e. e ! ni) (takeWhile (\<lambda>e. e ! ti = t0 \<or> e ! ti = t1) tbl))\<rparr>)"
  using assms
proof (induction tbl arbitrary: s)
  case Nil
  then show ?case by simp
next
  case (Cons e es)
  show ?case
  proof (cases "e ! ti = t0 \<or> e ! ti = t1")
    case True
    with Cons.prems have len: "ti < length e" "ni < length e" by auto
    let ?s = "s\<lparr>table_hh2 := table_hh2 s @ [e], names_hh2 := append_unique (names_hh2 s) (e ! ni)\<rparr>"
    have step: "scan_rows ti ni (e # es) s = scan_rows ti ni es ?s"
      using True len Cons.prems(1) by (auto simp: py_nth_def)
    have "hh_vals ?s = [t0, t1]" using Cons.prems(1) by simp
    from Cons.IH[OF this] Cons.prems True
    show ?thesis unfolding step by simp
  next
    case False
    with Cons.prems have "ti < length e" by simp
    with False Cons.prems(1) show ?thesis by (auto simp: py_nth_def)
  qed
qed

lemma scan_second:
  assumes hh: "hh_vals s = [t0]" and ne: "e ! ti \<noteq> t0" and len: "ti < length e" "ni < length e"
    and wf: "list_all (\<lambda>e. ti < length e \<and> ni < length e) (takeWhile (\<lambda>x. x ! ti = t0 \<or> x ! ti = e ! ti) es)"
    and stop: "case dropWhile (\<lambda>x. x ! ti = t0 \<or> x ! ti = e ! ti) es of [] \<Rightarrow> True | x # _ \<Rightarrow> ti < length x"
  shows "scan_rows ti ni (e # es) s =
         Inr (s\<lparr>hh_vals := [t0, e ! ti],
                table_hh2 := table_hh2 s @ e # takeWhile (\<lambda>x. x ! ti = t0 \<or> x ! ti = e ! ti) es,
                names_hh2 := foldl append_unique (names_hh2 s)
                  (map (\<lambda>x. x ! ni) (e # takeWhile (\<lambda>x. x ! ti = t0 \<or> x ! ti = e ! ti) es))\<rparr>)"
proof -
  let ?s = "s\<lparr>hh_vals := [t0, e ! ti], table_hh2 := table_hh2 s @ [e],
               names_hh2 := append_unique (names_hh2 s) (e ! ni)\<rparr>"
  have step: "scan_rows ti ni (e # es) s = scan_rows ti ni es ?s"
    using hh ne len by (simp add: py_nth_def Let_def)
  have "hh_vals ?s = [t0, e ! ti]" by simp
  from scan_phase2[OF this wf stop] show ?thesis unfolding step by simp
qed

lemma scan_phase1:
  assumes "hh_vals s = [t0]"
    and "list_all (\<lambda>e. ti < length e \<and> ni < length e) (takeWhile (\<lambda>e. e ! ti = t0) tbl)"
  shows "scan_rows ti ni tbl s =
         (let s' = s\<lparr>table_hh1 := table_hh1 s @ takeWhile (\<lambda>e. e ! ti = t0) tbl,
                      names_hh1 := foldl append_unique (names_hh1 s)
                        (map (\<lambda>e. e ! ni) (takeWhile (\<lambda>e. e ! ti = t0) tbl))\<rparr>
          in case dropWhile (\<lambda>e. e ! ti = t0) tbl of
               [] \<Rightarrow> Inr s'
             | e # es \<Rightarrow> scan_rows ti ni (e # es) s')"
  using assms
proof (induction tbl arbitrary: s)
  case Nil
  then show ?case by simp
next
  case (Cons e es)
  show ?case
  proof (cases "e ! ti = t0")
    case True
    with Cons.prems have len: "ti < length e" "ni < length e" by auto
    let ?s = "s\<lparr>table_hh1 := table_hh1 s @ [e], names_hh1 := append_unique (names_hh1 s) (e ! ni)\<rparr>"
    have step: "scan_rows ti ni (e # es) s = scan_rows ti ni es ?s"
      using True len Cons.prems(1) by (simp add: py_nth_def Let_def)
    have "hh_vals ?s = [t0]" using Cons.prems(1) by simp
    from Cons.IH[OF this] Cons.prems True
    show ?thesis unfolding step by (simp add: Let_def)
  next
    case False
    then show ?thesis by (simp add: Let_def)
  qed
qed

lemma scan_rows_init:
  assumes ne: "tbl \<noteq> []"
    and wf: "list_all (\<lambda>e. ti < length e \<and> ni < length e) (current_rows ti tbl @ previous_rows ti tbl)"
    and stop: "case unread_rows ti tbl of [] \<Rightarrow> True | x # _ \<Rightarrow> ti < length x"
  shows "scan_rows ti ni tbl init_state =
         Inr \<lparr>table_hh1 = current_rows ti tbl,
              table_hh2 = previous_rows ti tbl,
              hh_vals = hd tbl ! ti # (case later_rows ti tbl of [] \<Rightarrow> [] | e # _ \<Rightarrow> [e ! ti]),
              names_hh1 = first_seen (map (\<lambda>e. e ! ni) (current_rows ti tbl)),
              names_hh2 = first_seen (map (\<lambda>e. e ! ni) (previous_rows ti tbl))\<rparr>"
proof -
  from ne obtain e0 es where tbl: "tbl = e0 # es" by (cases tbl) auto
  let ?t0 = "e0 ! ti"
  let ?A = "takeWhile (\<lambda>e. e ! ti = ?t0) es"
  let ?R = "dropWhile (\<lambda>e. e ! ti = ?t0) es"
  have cur: "current_rows ti tbl = e0 # ?A" by (simp add: current_rows_def tbl)
  have lat: "later_rows ti tbl = ?R" by (simp add: later_rows_def tbl)
  from wf cur have len0: "ti < length e0" "ni < length e0"
    and wfA: "list_all (\<lambda>e. ti < length e \<and> ni < length e) ?A" by simp_all
  let ?s1 = "\<lparr>table_hh1 = [e0], table_hh2 = [], hh_vals = [?t0],
               names_hh1 = [e0 ! ni], names_hh2 = []\<rparr>"
  have step: "scan_rows ti ni tbl init_state = scan_rows ti ni es ?s1"
    using len0 by (simp add: tbl init_state_def py_nth_def Let_def append_unique_def)
  have hh1: "hh_vals ?s1 = [?t0]" by simp
  let ?s' = "?s1\<lparr>table_hh1 := table_hh1 ?s1 @ ?A,
                  names_hh1 := foldl append_unique (names_hh1 ?s1) (map (\<lambda>e. e ! ni) ?A)\<rparr>"
  have names1: "foldl append_unique [e0 ! ni] (map (\<lambda>e. e ! ni) ?A)
                = first_seen (map (\<lambda>e. e ! ni) (e0 # ?A))"
    by (simp add: first_seen_def append_unique_def)
  note p1 = scan_phase1[OF hh1 wfA]
  show ?thesis
  proof (cases ?R)
    case Nil
    have "previous_rows ti tbl = []" unfolding previous_rows_def lat Nil by simp
    have "scan_rows ti ni es ?s1 = Inr ?s'"
      using p1[unfolded Let_def Nil] by simp
    then show ?thesis
      unfolding step cur lat Nil \<open>previous_rows ti tbl = []\<close>
      using names1 by (simp add: first_seen_def tbl)
  next
    case (Cons e es')
    let ?P = "\<lambda>x. x ! ti = ?t0 \<or> x ! ti = e ! ti"
    have "e \<in> set ?R" using Cons by simp
    have ne: "e ! ti \<noteq> ?t0" using Cons by (metis (mono_tags, lifting) dropWhile_eq_Cons_conv)
    have prev: "previous_rows ti tbl = e # takeWhile ?P es'"
      unfolding previous_rows_def lat Cons by (simp add: tbl)
    have unread: "unread_rows ti tbl = dropWhile ?P es'"
      unfolding unread_rows_def lat Cons by (simp add: tbl)
    from wf prev have len: "ti < length e" "ni < length e"
      and wfB: "list_all (\<lambda>e. ti < length e \<and> ni < length e) (takeWhile ?P es')" by simp_all
    from stop unread have stop': "case dropWhile ?P es' of [] \<Rightarrow> True | x # _ \<Rightarrow> ti < length x"
      by simp
    have hh': "hh_vals ?s' = [?t0]" by simp
    have "scan_rows ti ni es ?s1 = scan_rows ti ni (e # es') ?s'"
      using p1[unfolded Let_def Cons] by (simp del: scan_rows.simps)
    also have "\<dots> = Inr (?s'\<lparr>hh_vals := [?t0, e ! ti],
                table_hh2 := table_hh2 ?s' @ e # takeWhile ?P es',
                names_hh2 := foldl append_unique (names_hh2 ?s')
                  (map (\<lambda>x. x ! ni) (e # takeWhile ?P es'))\<rparr>)"
      by (rule scan_second[OF hh' ne len wfB stop'])
    finally show ?thesis
      unfolding step cur lat Cons prev
      using names1 by (simp add: first_seen_def tbl)
  qed
qed

lemma scan_rows_wf:
  assumes ne: "tbl \<noteq> []" and wf: "list_all (\<lambda>e. ti < length e \<and> ni < length e) tbl"
  shows "scan_rows ti ni tbl init_state =
         Inr \<lparr>table_hh1 = current_rows ti tbl,
              table_hh2 = previous_rows ti tbl,
              hh_vals = hd tbl ! ti # (case later_rows ti tbl of [] \<Rightarrow> [] | e # _ \<Rightarrow> [e ! ti]),
              names_hh1 = first_seen (map (\<lambda>e. e ! ni) (current_rows ti tbl)),
              names_hh2 = first_seen (map (\<lambda>e. e ! ni) (previous_rows ti tbl))\<rparr>"
proof (rule scan_rows_init[OF ne])
  have sub: "set (current_rows ti tbl) \<subseteq> set tbl" "set (previous_rows ti tbl) \<subseteq> set tbl"
    "set (unread_rows ti tbl) \<subseteq> set tbl"
    unfolding current_rows_def previous_rows_def unread_rows_def later_rows_def
    by (auto dest!: set_takeWhileD set_dropWhileD)
  with wf show "list_all (\<lambda>e. ti < length e \<and> ni < length e)
                  (current_rows ti tbl @ previous_rows ti tbl)"
    by (auto simp: list_all_iff)
  show "case unread_rows ti tbl of [] \<Rightarrow> True | x # _ \<Rightarrow> ti < length x"
  proof (cases "unread_rows ti tbl")
    case Nil then show ?thesis by simp
  next
    case (Cons x xs)
    then have "x \<in> set tbl" using sub(3) by auto
    with wf Cons show ?thesis by (auto simp: list_all_iff)
  qed
qed

text \<open>
  Once a row with a third timestamp is in the table, rows appended to the table change
  nothing.
\<close>

lemma scan_rows_append:
  assumes ne: "tbl \<noteq> []"
    and wf: "list_all (\<lambda>e. ti < length e \<and> ni < length e) tbl"
    and third: "unread_rows ti tbl \<noteq> []"
  shows "scan_rows ti ni (tbl @ rest) init_state = scan_rows ti ni tbl init_state"
proof -
  let ?P0 = "\<lambda>e. e ! ti = hd tbl ! ti"
  let ?P1 = "\<lambda>e. e ! ti = hd tbl ! ti \<or> e ! ti = hd (later_rows ti tbl) ! ti"
  have hd_app: "hd (tbl @ rest) = hd tbl" using ne by simp
  have lne: "later_rows ti tbl \<noteq> []" using third by (auto simp: unread_rows_def)
  then obtain x where x: "x \<in> set tbl" "\<not> ?P0 x"
    unfolding later_rows_def by (auto simp: dropWhile_eq_Nil_conv)
  have cur: "current_rows ti (tbl @ rest) = current_rows ti tbl"
    unfolding current_rows_def hd_app using x by (rule takeWhile_append1)
  have lat: "later_rows ti (tbl @ rest) = later_rows ti tbl @ rest"
    unfolding later_rows_def hd_app using x by (rule dropWhile_append1)
  have hd_lat: "hd (later_rows ti (tbl @ rest)) = hd (later_rows ti tbl)"
    using lne by (simp add: lat)
  from third obtain y where y: "y \<in> set (later_rows ti tbl)" "\<not> ?P1 y"
    unfolding unread_rows_def by (auto simp: dropWhile_eq_Nil_conv)
  have prev: "previous_rows ti (tbl @ rest) = previous_rows ti tbl"
    unfolding previous_rows_def hd_app hd_lat unfolding lat using y by (rule takeWhile_append1)
  have unread: "unread_rows ti (tbl @ rest) = unread_rows ti tbl @ rest"
    unfolding unread_rows_def hd_app hd_lat unfolding lat using y by (rule dropWhile_append1)
  have sub: "set (current_rows ti tbl) \<subseteq> set tbl" "set (previous_rows ti tbl) \<subseteq> set tbl"
    "set (unread_rows ti tbl) \<subseteq> set tbl"
    unfolding current_rows_def previous_rows_def unread_rows_def later_rows_def
    by (auto dest!: set_takeWhileD set_dropWhileD)
  have wf': "list_all (\<lambda>e. ti < length e \<and> ni < length e)
               (current_rows ti (tbl @ rest) @ previous_rows ti (tbl @ rest))"
    unfolding cur prev using wf sub by (auto simp: list_all_iff)
  have stop': "case unread_rows ti (tbl @ rest) of [] \<Rightarrow> True | x # _ \<Rightarrow> ti < length x"
  proof -
    from third obtain u us where u: "unread_rows ti tbl = u # us" by (cases "unread_rows ti tbl") auto
    then have "u \<in> set tbl" using sub(3) by auto
    with wf have "ti < length u" by (auto simp: list_all_iff)
    then show ?thesis unfolding unread u by simp
  qed
  have ne': "tbl @ rest \<noteq> []" using ne by simp
  have lcase: "(case later_rows ti (tbl @ rest) of [] \<Rightarrow> [] | e # _ \<Rightarrow> [e ! ti])
               = (case later_rows ti tbl of [] \<Rightarrow> [] | e # _ \<Rightarrow> [e ! ti])"
    using lne unfolding lat by (cases "later_rows ti tbl") simp_all
  show ?thesis
    unfolding scan_rows_init[OF ne' wf' stop'] scan_rows_wf[OF ne wf]
    by (simp only: cur prev hd_app lcase)
qed

lemma get_two_values_scan:
  assumes "response = r0 # rs"
    and "list_index (map fst r0) name_index = Inr ni"
    and "list_index (map fst r0) time_index = Inr ti"
    and "scan_rows ti ni (map (map snd) response) init_state = Inr s"
  shows "get_two_values response time_index name_index =
         Inr (table_hh1 s, table_hh2 s, map fst r0, names_hh1 s, names_hh2 s)"
  using assms(2,3,4) unfolding assms(1)
  by (simp del: scan_rows.simps add: get_two_values_def Let_def)

section \<open>C1: the two periods of rows in descending order\<close>

lemma desc_takeWhile_filter:
  fixes f :: "'a \<Rightarrow> rat"
  assumes "sorted_wrt (\<ge>) (map f xs)" "\<forall>x\<in>set xs. f x \<le> c"
  shows "takeWhile (\<lambda>x. f x = c) xs = filter (\<lambda>x. f x = c) xs"
proof (rule takeWhile_eq_filter)
  fix x assume x: "x \<in> set (dropWhile (\<lambda>x. f x = c) xs)"
  let ?R = "dropWhile (\<lambda>x. f x = c) xs"
  from x have ne: "?R \<noteq> []" by (metis empty_iff list.set(1))
  have h: "f (hd ?R) \<noteq> c" using hd_dropWhile[OF ne] .
  have "hd ?R \<in> set xs" using ne by (metis hd_in_set set_dropWhileD)
  with assms(2) h have lt: "f (hd ?R) < c" by force
  have "sorted_wrt (\<ge>) (map f ?R)"
    using assms(1) by (simp add: sorted_wrt_map)
  then have "f x \<le> f (hd ?R)"
    using x ne by (cases ?R) (auto simp del: dropWhile_eq_Cons_conv)
  with lt show "f x \<noteq> c" by simp
qed

lemma desc_hd_max:
  fixes f :: "'a \<Rightarrow> rat"
  assumes "sorted_wrt (\<ge>) (map f xs)" "x \<in> set xs"
  shows "f x \<le> f (hd xs)"
  using assms by (cases xs) auto

lemma desc_rest_less:
  fixes f :: "'a \<Rightarrow> rat"
  assumes "sorted_wrt (\<ge>) (map f xs)" "x \<in> set (dropWhile (\<lambda>x. f x = f (hd xs)) xs)"
  shows "f x < f (hd xs)"
proof -
  let ?R = "dropWhile (\<lambda>x. f x = f (hd xs)) xs"
  from assms(2) have ne: "?R \<noteq> []" by (metis empty_iff list.set(1))
  have srt: "sorted_wrt (\<ge>) (map f ?R)" using assms(1) by (simp add: sorted_wrt_map)
  have "f x \<le> f (hd ?R)" by (rule desc_hd_max[OF srt assms(2)])
  moreover have "f (hd ?R) \<noteq> f (hd xs)" using hd_dropWhile[OF ne] .
  moreover have "f (hd ?R) \<le> f (hd xs)"
    by (rule desc_hd_max[OF assms(1)]) (metis ne hd_in_set set_dropWhileD)
  ultimately show ?thesis by simp
qed

text \<open>
  Claim C1. For every response whose rows are ordered descending by bucket timestamp (all
  rows with the columns of the first, the time column holding the timestamps \<open>ts\<close>),
  \<^verbatim>\<open>__get_two_values\<close> returns as current rows exactly the rows that carry the first distinct
  timestamp and as previous rows exactly the rows that carry the second distinct timestamp,
  with the distinct names of each in first-seen order; with a single distinct timestamp the
  previous period is empty. The scan stops at the first row with a third distinct timestamp:
  when the response has one, whatever rows \<open>later\<close> follow it (in any order, with or without
  the columns) are ignored.
\<close>

theorem get_two_values_descending:
  assumes ne: "response \<noteq> []"
    and cols: "list_all (\<lambda>r. map fst r = columns) response"
    and ti_in: "time_index \<in> set columns" and ni_in: "name_index \<in> set columns"
    and times: "map (\<lambda>r. cell r time_index) response = map VTime ts"
    and desc: "sorted_wrt (\<ge>) ts"
  shows "get_two_values response time_index name_index =
         (case remdups_adj ts of
            t2 # t1 # _ \<Rightarrow>
              Inr (rows_at response time_index t2, rows_at response time_index t1, columns,
                   keys_at response time_index name_index t2,
                   keys_at response time_index name_index t1)
          | _ \<Rightarrow>
              Inr (rows_at response time_index (hd ts), [], columns,
                   keys_at response time_index name_index (hd ts), [])) \<and>
         (3 \<le> length (remdups_adj ts) \<longrightarrow>
            get_two_values (response @ later) time_index name_index
              = get_two_values response time_index name_index)"
    (is "?result \<and> ?stop")
proof -
  define f where "f = (\<lambda>r. case cell r time_index of VTime t \<Rightarrow> t | _ \<Rightarrow> 0)"
  define tbl where "tbl = map (map snd) response"
  from ne obtain r0 rs where resp: "response = r0 # rs" by (cases response) auto
  have col0: "map fst r0 = columns" using cols resp by simp
  from list_index_in[OF ti_in] obtain ti where ti: "list_index columns time_index = Inr ti"
    "ti < length columns" by blast
  from list_index_in[OF ni_in] obtain ni where ni: "list_index columns name_index = Inr ni"
    "ni < length columns" by blast
  have fts: "map f response = ts"
  proof -
    have "map f response = map (\<lambda>v. case v of VTime t \<Rightarrow> t | _ \<Rightarrow> 0) (map (\<lambda>r. cell r time_index) response)"
      by (simp add: f_def comp_def)
    also have "\<dots> = ts" unfolding times by (simp add: comp_def)
    finally show ?thesis .
  qed
  have cellf: "cell r time_index = VTime (f r)" if "r \<in> set response" for r
  proof -
    from that have "cell r time_index \<in> set (map (\<lambda>r. cell r time_index) response)" by auto
    then obtain t where "cell r time_index = VTime t" unfolding times by auto
    then show ?thesis by (simp add: f_def)
  qed
  have colr: "map fst r = columns" if "r \<in> set response" for r
    using cols that by (simp add: list_all_iff)
  have tcell: "map snd r ! ti = VTime (f r)" if "r \<in> set response" for r
  proof -
    have "list_index (map fst r) time_index = Inr ti" by (simp only: colr[OF that] ti(1))
    from cell_index[OF this] cellf[OF that] show ?thesis by (simp only:)
  qed
  have ncell: "map snd r ! ni = cell r name_index" if "r \<in> set response" for r
  proof -
    have "list_index (map fst r) name_index = Inr ni" by (simp only: colr[OF that] ni(1))
    from cell_index[OF this] show ?thesis .
  qed
  have lenr: "length (map snd r) = length columns" if "r \<in> set response" for r
    using colr[OF that] by (metis length_map)
  have eqf: "(cell r time_index = VTime t) = (f r = t)" if "r \<in> set response" for r t
    using cellf[OF that] by auto
  have srt: "sorted_wrt (\<ge>) (map f response)" using desc fts by simp
  let ?t0 = "f r0"
  let ?A = "takeWhile (\<lambda>r. f r = ?t0) response"
  let ?R = "dropWhile (\<lambda>r. f r = ?t0) response"
  have hd_ts: "hd ts = ?t0" using fts resp by auto
  have tne: "tbl \<noteq> []" using ne by (simp add: tbl_def)
  have wf: "list_all (\<lambda>e. ti < length e \<and> ni < length e) tbl"
    unfolding tbl_def list_all_iff
  proof
    fix e assume "e \<in> set (map (map snd) response)"
    then obtain r where "r \<in> set response" "e = map snd r" by auto
    with lenr[of r] ti(2) ni(2) show "ti < length e \<and> ni < length e" by simp
  qed
  have hd_tbl: "hd tbl ! ti = VTime ?t0"
    using tcell[of r0] by (simp add: tbl_def resp)
  have subA: "set ?A \<subseteq> set response" and subR: "set ?R \<subseteq> set response"
    by (meson set_takeWhileD set_dropWhileD subsetI)+
  have cur: "current_rows ti tbl = map (map snd) ?A"
    unfolding current_rows_def hd_tbl unfolding tbl_def takeWhile_map
    by (rule arg_cong[where f="map (map snd)"], rule takeWhile_cong) (simp_all add: tcell)
  have lat: "later_rows ti tbl = map (map snd) ?R"
    unfolding later_rows_def hd_tbl unfolding tbl_def dropWhile_map
    by (rule arg_cong[where f="map (map snd)"], rule dropWhile_cong) (simp_all add: tcell)
  have A_filter: "?A = [r \<leftarrow> response. cell r time_index = VTime ?t0]"
  proof -
    have "?A = filter (\<lambda>r. f r = ?t0) response"
      by (rule desc_takeWhile_filter[OF srt]) (use desc_hd_max[OF srt] resp in auto)
    also have "\<dots> = [r \<leftarrow> response. cell r time_index = VTime ?t0]"
      by (rule filter_cong) (simp_all add: eqf)
    finally show ?thesis .
  qed
  have rows1: "current_rows ti tbl = rows_at response time_index ?t0"
    by (simp add: cur A_filter rows_at_def)
  have keys1: "first_seen (map (\<lambda>e. e ! ni) (current_rows ti tbl))
               = keys_at response time_index name_index ?t0"
  proof -
    have "map (\<lambda>e. e ! ni) (map (map snd) ?A) = map (\<lambda>r. cell r name_index) ?A"
      using subA by (auto simp: ncell)
    then show ?thesis unfolding cur keys_at_def A_filter[symmetric] by (simp only:)
  qed
  note scan = scan_rows_wf[OF tne wf]
  have g2v: "get_two_values response time_index name_index =
             Inr (current_rows ti tbl, previous_rows ti tbl, columns,
                  first_seen (map (\<lambda>e. e ! ni) (current_rows ti tbl)),
                  first_seen (map (\<lambda>e. e ! ni) (previous_rows ti tbl)))"
    using get_two_values_scan[OF resp _ _ scan[unfolded tbl_def], of name_index time_index]
    by (simp add: col0 ti ni tbl_def)
  have rd: "remdups_adj ts = ?t0 # remdups_adj (map f ?R)"
  proof -
    have "remdups_adj ts = remdups_adj (?t0 # map f rs)" using fts resp by auto
    also have "\<dots> = ?t0 # remdups_adj (dropWhile (\<lambda>y. y = ?t0) (map f rs))"
      by (rule remdups_adj_Cons')
    also have "dropWhile (\<lambda>y. y = ?t0) (map f rs) = map f ?R"
      by (simp add: resp dropWhile_map comp_def)
    finally show ?thesis .
  qed
  show ?thesis
  proof (cases ?R)
    case Nil
    have "previous_rows ti tbl = []" unfolding previous_rows_def lat Nil by simp
    moreover have "remdups_adj ts = [?t0]" unfolding rd Nil by simp
    moreover have "first_seen ([] :: val list) = []" by (simp add: first_seen_def)
    ultimately show ?thesis
      by (simp add: g2v rows1 keys1[unfolded rows1] hd_ts)
  next
    case (Cons r1 rs1)
    let ?t1 = "f r1"
    have r1_in: "r1 \<in> set response" using subR Cons by auto
    have hdR: "hd ?R = r1" using Cons by simp
    have lt: "f x < ?t0" if "x \<in> set ?R" for x
    proof -
      have "hd response = r0" by (simp add: resp)
      with desc_rest_less[OF srt, of x] that show ?thesis by (simp only:)
    qed
    have ne01: "?t1 \<noteq> ?t0" using lt[of r1] Cons by auto
    have srtR: "sorted_wrt (\<ge>) (map f ?R)" using srt by (simp add: sorted_wrt_map)
    have hd_lat: "hd (later_rows ti tbl) ! ti = VTime ?t1"
      using tcell[OF r1_in] by (simp add: lat Cons)
    have "previous_rows ti tbl = map (map snd) (takeWhile (\<lambda>r. f r = ?t0 \<or> f r = ?t1) ?R)"
      unfolding previous_rows_def hd_tbl hd_lat unfolding lat takeWhile_map
    proof (rule arg_cong[where f="map (map snd)"], rule takeWhile_cong[OF refl])
      fix x assume "x \<in> set ?R"
      then have "x \<in> set response" using subR by blast
      from tcell[OF this]
      show "((\<lambda>e. e ! ti = VTime ?t0 \<or> e ! ti = VTime ?t1) \<circ> map snd) x
            = (f x = ?t0 \<or> f x = ?t1)" by simp
    qed
    also have "takeWhile (\<lambda>r. f r = ?t0 \<or> f r = ?t1) ?R = takeWhile (\<lambda>r. f r = ?t1) ?R"
    proof (rule takeWhile_cong[OF refl])
      fix x assume "x \<in> set ?R"
      from lt[OF this] show "(f x = ?t0 \<or> f x = ?t1) = (f x = ?t1)" by auto
    qed
    also have "takeWhile (\<lambda>r. f r = ?t1) ?R = filter (\<lambda>r. f r = ?t1) ?R"
      by (rule desc_takeWhile_filter[OF srtR]) (use desc_hd_max[OF srtR] hdR in auto)
    also have "\<dots> = filter (\<lambda>r. f r = ?t1) response"
    proof -
      have e: "filter (\<lambda>r. f r = ?t1) ?A = []"
        using ne01 by (auto simp: filter_empty_conv dest: set_takeWhileD)
      have "filter (\<lambda>r. f r = ?t1) response = filter (\<lambda>r. f r = ?t1) (?A @ ?R)" by simp
      also have "\<dots> = filter (\<lambda>r. f r = ?t1) ?A @ filter (\<lambda>r. f r = ?t1) ?R"
        by (rule filter_append)
      finally show ?thesis using e by simp
    qed
    also have "\<dots> = [r \<leftarrow> response. cell r time_index = VTime ?t1]"
      by (rule filter_cong) (simp_all add: eqf)
    finally have B: "previous_rows ti tbl
                     = map (map snd) [r \<leftarrow> response. cell r time_index = VTime ?t1]" .
    have rows2: "previous_rows ti tbl = rows_at response time_index ?t1"
      by (simp add: B rows_at_def)
    have keys2: "first_seen (map (\<lambda>e. e ! ni) (previous_rows ti tbl))
                 = keys_at response time_index name_index ?t1"
    proof -
      have "map (\<lambda>e. e ! ni) (map (map snd) [r \<leftarrow> response. cell r time_index = VTime ?t1])
            = map (\<lambda>r. cell r name_index) [r \<leftarrow> response. cell r time_index = VTime ?t1]"
        by (auto simp: ncell)
      then show ?thesis unfolding B keys_at_def by (simp only:)
    qed
    have "remdups_adj ts = ?t0 # ?t1 # remdups_adj (dropWhile (\<lambda>y. y = ?t1) (map f rs1))"
      unfolding rd Cons by (simp add: remdups_adj_Cons'[of ?t1])
    have rd3: "remdups_adj ts = ?t0 # ?t1 # remdups_adj (dropWhile (\<lambda>y. y = ?t1) (map f rs1))"
      by fact
    have res: ?result
      using rd3 by (simp add: g2v rows1 keys1[unfolded rows1] rows2 keys2[unfolded rows2])
    have stop: ?stop
    proof
      assume "3 \<le> length (remdups_adj ts)"
      have "dropWhile (\<lambda>y. y = ?t1) (map f rs1) \<noteq> []"
      proof
        assume E: "dropWhile (\<lambda>y. y = ?t1) (map f rs1) = []"
        have "remdups_adj ts = [?t0, ?t1]" unfolding rd3 E by simp
        with \<open>3 \<le> length (remdups_adj ts)\<close> show False by simp
      qed
      then obtain z where z: "z \<in> set rs1" "f z \<noteq> ?t1"
        by (auto simp: dropWhile_eq_Nil_conv)
      then have zR: "z \<in> set ?R" using Cons by simp
      then have zresp: "z \<in> set response" using subR by blast
      have "f z \<noteq> ?t0" using lt[OF zR] by simp
      with z(2) tcell[OF zresp]
      have "\<not> (map snd z ! ti = VTime ?t0 \<or> map snd z ! ti = VTime ?t1)" by simp
      moreover have "map snd z \<in> set (later_rows ti tbl)" using zR unfolding lat by simp
      ultimately have third: "unread_rows ti tbl \<noteq> []"
        unfolding unread_rows_def hd_tbl hd_lat by (auto simp: dropWhile_eq_Nil_conv)
      have app: "scan_rows ti ni (map (map snd) (response @ later)) init_state
                 = scan_rows ti ni tbl init_state"
        using scan_rows_append[OF tne wf third, where rest="map (map snd) later"]
        by (simp add: tbl_def)
      have "response @ later = r0 # (rs @ later)" by (simp add: resp)
      from get_two_values_scan[OF this _ _ app[unfolded scan], of name_index time_index]
      show "get_two_values (response @ later) time_index name_index
            = get_two_values response time_index name_index"
        unfolding g2v by (simp add: col0 ti ni)
    qed
    from res stop show ?thesis ..
  qed
qed

text \<open>
  Timestamps \<open>[T2, T2, T1, T1, T0]\<close>: the two \<open>T2\<close> rows are current, the two \<open>T1\<close> rows
  previous, the \<open>T0\<close> row is in neither, and a row after it is ignored even though it carries
  \<open>T2\<close> and has no name.
\<close>

theorem get_two_values_descending_witness:
  "get_two_values five_rows ''hh'' ''names'' =
     Inr ([[VTime 7200, VStr ''a''], [VTime 7200, VStr ''b'']],
          [[VTime 3600, VStr ''a''], [VTime 3600, VStr ''c'']],
          [''hh'', ''names''],
          [VStr ''a'', VStr ''b''], [VStr ''a'', VStr ''c'']) \<and>
   get_two_values (five_rows @ [[(''hh'', VTime 7200)]]) ''hh'' ''names''
     = get_two_values five_rows ''hh'' ''names''"
  using get_two_values_descending[of five_rows "[''hh'', ''names'']" "''hh''" "''names''"
      "[7200, 7200, 3600, 3600, 0]" "[[(''hh'', VTime 7200)]]"]
  by (simp add: five_rows_def cell_def rows_at_def keys_at_def first_seen_def append_unique_def)

text \<open>
  Without the descending order the previous period is not the set of rows with the second
  timestamp: a row with the first timestamp that comes after a row with the second one is
  counted in the previous period.
\<close>

theorem unordered_rows_previous:
  "get_two_values unordered_rows ''hh'' ''names'' =
     Inr ([[VTime 7200, VStr ''a'']],
          [[VTime 3600, VStr ''b''], [VTime 7200, VStr ''c'']],
          [''hh'', ''names''], [VStr ''a''], [VStr ''b'', VStr ''c''])"
  by (simp add: unordered_rows_def get_two_values_def init_state_def py_nth_def
      append_unique_def Let_def)

section \<open>C2: new and common keys\<close>

lemma errors_new_events:
  assumes "most_errors_by_period res = Inr r"
  shows "\<exists>t1 t2 cols this last.
           get_two_values res ''hh'' ''names'' = Inr (t1, t2, cols, this, last) \<and>
           new_events r = new_keys this last"
  using assms unfolding most_errors_by_period_def
  by (auto simp: bindE_eq_Inr Let_def split: prod.splits)

lemma requests_new_events:
  assumes "requests_by_period np res = Inr r"
  shows "\<exists>t1 t2 cols this last.
           get_two_values res ''hh'' ''source'' = Inr (t1, t2, cols, this, last) \<and>
           new_events r = new_keys this last"
  using assms unfolding requests_by_period_def
  by (auto simp: bindE_eq_Inr Let_def split: prod.splits option.splits)

text \<open>
  Claim C2. The new keys are the current keys that are not previous keys, in the order of
  the current keys; the common keys, computed as the current keys that are not new, are the
  current keys that are previous keys too, in the same order. These are the lists both query
  functions build from the keys the splitter returns, and \<^verbatim>\<open>new_events\<close> is the first of them.
\<close>

theorem new_and_common_keys:
  "new_keys current_keys previous_keys = [x \<leftarrow> current_keys. x \<notin> set previous_keys] \<and>
   common_keys current_keys (new_keys current_keys previous_keys)
     = [x \<leftarrow> current_keys. x \<in> set previous_keys] \<and>
   set (new_keys current_keys previous_keys) = set current_keys - set previous_keys \<and>
   set (common_keys current_keys (new_keys current_keys previous_keys))
     = set current_keys \<inter> set previous_keys \<and>
   (most_errors_by_period res = Inr r \<longrightarrow>
      (\<exists>t1 t2 cols this last.
         get_two_values res ''hh'' ''names'' = Inr (t1, t2, cols, this, last) \<and>
         new_events r = [x \<leftarrow> this. x \<notin> set last])) \<and>
   (requests_by_period np res' = Inr r' \<longrightarrow>
      (\<exists>t1 t2 cols this last.
         get_two_values res' ''hh'' ''source'' = Inr (t1, t2, cols, this, last) \<and>
         new_events r' = [x \<leftarrow> this. x \<notin> set last]))"
proof -
  have a: "new_keys current_keys previous_keys = [x \<leftarrow> current_keys. x \<notin> set previous_keys]"
    by (simp add: new_keys_def)
  have b: "common_keys current_keys (new_keys current_keys previous_keys)
     = [x \<leftarrow> current_keys. x \<in> set previous_keys]"
    by (auto simp: new_keys_def common_keys_def intro: filter_cong)
  have c: "set (new_keys current_keys previous_keys) = set current_keys - set previous_keys"
    by (auto simp: new_keys_def)
  have d: "set (common_keys current_keys (new_keys current_keys previous_keys))
     = set current_keys \<inter> set previous_keys"
    unfolding b by auto
  from a b c d errors_new_events[of res r] requests_new_events[of np res' r']
  show ?thesis unfolding new_keys_def by blast
qed

text \<open>
  Current keys \<open>[A, B, C]\<close> and previous keys \<open>[B, C, D]\<close>: \<open>[A]\<close> is new, \<open>[B, C]\<close> common;
  \<open>D\<close> is in neither.
\<close>

theorem new_and_common_keys_example:
  "new_keys [''A'', ''B'', ''C''] [''B'', ''C'', ''D''] = [''A''] \<and>
   common_keys [''A'', ''B'', ''C''] (new_keys [''A'', ''B'', ''C''] [''B'', ''C'', ''D''])
     = [''B'', ''C''] \<and>
   (\<exists>t1 t2 cols this last.
      get_two_values (map errors_dict disjoint_key_rows) ''hh'' ''names''
        = Inr (t1, t2, cols, this, last) \<and>
      [VStr ''A'', VStr ''B''] = [x \<leftarrow> this. x \<notin> set last])"
proof -
  have e: "most_errors_by_period (map errors_dict disjoint_key_rows) =
     Inr \<lparr>ratio = [(VStr ''A'', VNum (3 / 4)), (VStr ''B'', VNum (1 / 4))], increase = [],
          new_events = [VStr ''A'', VStr ''B'']\<rparr>"
    by (simp add: disjoint_key_rows_def eval_defs)
  let ?r = "\<lparr>ratio = [(VStr ''A'', VNum (3 / 4)), (VStr ''B'', VNum (1 / 4))], increase = [],
          new_events = [VStr ''A'', VStr ''B'']\<rparr>"
  from new_and_common_keys[of "[''A'', ''B'', ''C'']" "[''B'', ''C'', ''D'']"
      "map errors_dict disjoint_key_rows" ?r exact_numpy "[]" ?r] e
  show ?thesis by (simp add: new_keys_def common_keys_def)
qed

section \<open>The errors computation on the rows of its query\<close>

lemma cells_simps [simp]:
  "errors_cells r ! 0 = VTime (e_hh r)"
  "errors_cells r ! Suc 0 = VNum (of_int (e_sessions r))"
  "errors_cells r ! 2 = name_val (e_names r)"
  "errors_cells r ! Suc (Suc 0) = name_val (e_names r)"
  "length (errors_cells r) = 4"
  by (simp_all add: errors_cells_def errors_dict_def numeral_2_eq_2)

lemma cells_ne [simp]: "errors_cells r \<noteq> []"
  by (simp add: errors_cells_def errors_dict_def)

lemma hd_map_cells: "rows \<noteq> [] \<Longrightarrow> hd (map errors_cells rows) = errors_cells (hd rows)"
  by (simp add: hd_map)

lemma current_rows_typed:
  "rows \<noteq> [] \<Longrightarrow> current_rows 0 (map errors_cells rows) = map errors_cells (current_period rows)"
  by (simp add: current_rows_def current_period_def takeWhile_map hd_map comp_def)

lemma later_rows_typed:
  "rows \<noteq> [] \<Longrightarrow> later_rows 0 (map errors_cells rows) = map errors_cells (earlier_periods rows)"
  by (simp add: later_rows_def earlier_periods_def dropWhile_map hd_map comp_def)

lemma previous_rows_typed:
  assumes "rows \<noteq> []"
  shows "previous_rows 0 (map errors_cells rows) = map errors_cells (previous_period rows)"
proof (cases "earlier_periods rows")
  case Nil
  then show ?thesis using assms
    by (simp add: previous_rows_def previous_period_def later_rows_typed)
next
  case (Cons a as)
  then show ?thesis using assms
    by (simp add: previous_rows_def previous_period_def later_rows_typed takeWhile_map hd_map comp_def)
qed

lemma get_two_values_typed:
  assumes "rows \<noteq> []"
  shows "get_two_values (map errors_dict rows) ''hh'' ''names'' =
         Inr (map errors_cells (current_period rows),
              map errors_cells (previous_period rows),
              [''hh'', ''sessions'', ''names'', ''sources''],
              first_seen (map (\<lambda>r. name_val (e_names r)) (current_period rows)),
              first_seen (map (\<lambda>r. name_val (e_names r)) (previous_period rows)))"
proof -
  from assms obtain r0 rs where rows: "rows = r0 # rs" by (cases rows) auto
  have tbl: "map (map snd) (map errors_dict rows) = map errors_cells rows"
    by (simp add: errors_cells_def)
  have ne: "map errors_cells rows \<noteq> []" using assms by simp
  have wf: "list_all (\<lambda>e. 0 < length e \<and> Suc (Suc 0) < length e)
              (current_rows 0 (map errors_cells rows) @ previous_rows 0 (map errors_cells rows))"
    by (auto simp add: current_rows_typed previous_rows_typed assms list_all_iff)
  have stop: "case unread_rows 0 (map errors_cells rows) of [] \<Rightarrow> True | x # _ \<Rightarrow> 0 < length x"
  proof (cases "unread_rows 0 (map errors_cells rows)")
    case Nil then show ?thesis by simp
  next
    case (Cons x xs)
    then have "x \<in> set (unread_rows 0 (map errors_cells rows))" by simp
    then have "x \<in> set (map errors_cells rows)"
      unfolding unread_rows_def later_rows_def by (meson set_dropWhileD)
    then show ?thesis using Cons by auto
  qed
  note scan = scan_rows_init[OF ne wf stop]
  have cols: "map fst (errors_dict r0) = [''hh'', ''sessions'', ''names'', ''sources'']"
    by (simp add: errors_dict_def)
  show ?thesis
    unfolding get_two_values_def
    apply (simp only: rows list.map list.case Let_def cols)
    apply (simp only: list.map[symmetric] rows[symmetric] tbl)
    apply (simp add: scan current_rows_typed previous_rows_typed assms comp_def)
    done
qed

lemma current_period_ne: "rows \<noteq> [] \<Longrightarrow> current_period rows \<noteq> []"
  by (cases rows) (simp_all add: current_period_def)

lemma list_index_columns:
  "list_index [''hh'', ''sessions'', ''names'', ''sources''] ''sessions'' = Inr (Suc 0)"
  "list_index [''hh'', ''sessions'', ''names'', ''sources''] ''names'' = Inr (Suc (Suc 0))"
  by simp_all

lemma sum_from_nums:
  "sum_from (VNum a) (map (\<lambda>r. VNum (f r)) xs) = Inr (VNum (a + sum_list (map f xs)))"
  by (induction xs arbitrary: a) (simp_all add: add.assoc)

lemma np_sum_nums: "np_sum (map (\<lambda>r. VNum (f r)) xs) = Inr (VNum (sum_list (map f xs)))"
  by (cases xs) (simp_all add: np_sum_def sum_from_nums)

lemma is_2d_cells: "rows \<noteq> [] \<Longrightarrow> is_2d (map errors_cells rows)"
  by (simp add: is_2d_def list_all_iff hd_map)

lemma np_col_sessions:
  "rows \<noteq> [] \<Longrightarrow> np_col (map errors_cells rows) (Suc 0) =
     Inr (map (\<lambda>r. VNum (of_int (e_sessions r))) rows)"
  by (simp add: np_col_def is_2d_cells hd_map comp_def)

lemma np_col_where_sessions:
  "rows \<noteq> [] \<Longrightarrow> np_col_where (map errors_cells rows) (Suc (Suc 0)) n (Suc 0) =
     Inr (map (\<lambda>r. VNum (of_int (e_sessions r))) [r \<leftarrow> rows. name_val (e_names r) = n])"
  by (simp add: np_col_where_def np_where_def np_col_def is_2d_cells hd_map filter_map comp_def)

lemma np_col_where_names:
  "rows \<noteq> [] \<Longrightarrow> np_col_where (map errors_cells rows) (Suc (Suc 0)) n (Suc (Suc 0)) =
     Inr (map (\<lambda>r. name_val (e_names r)) [r \<leftarrow> rows. name_val (e_names r) = n])"
  by (simp add: np_col_where_def np_where_def np_col_def is_2d_cells hd_map filter_map comp_def)

lemma of_int_sum_list_map:
  "(of_int (sum_list (map f xs)) :: rat) = sum_list (map (\<lambda>x. of_int (f x)) xs)"
  by (induction xs) simp_all

lemma sum_key_sessions:
  "sum_list (map (\<lambda>r. (of_int (e_sessions r) :: rat)) [r \<leftarrow> rows. name_val (e_names r) = n])
     = of_int (key_sessions rows n)"
  by (simp add: key_sessions_def of_int_sum_list_map)

lemma sum_total_sessions:
  "sum_list (map (\<lambda>r. (of_int (e_sessions r) :: rat)) rows) = of_int (total_sessions rows)"
  by (simp add: total_sessions_def of_int_sum_list_map)

lemma percentage_loop_typed:
  assumes "rows \<noteq> []" "t \<noteq> 0" "distinct ks" "set ks \<inter> fst ` set d = {}"
  shows "percentage_loop (map errors_cells rows) (Suc (Suc 0)) (Suc 0) (VNum t) ks d =
         Inr (d @ map (\<lambda>k. (k, VNum (of_int (key_sessions rows k) / t))) ks)"
  using assms(3,4)
proof (induction ks arbitrary: d)
  case Nil
  then show ?case by simp
next
  case (Cons k ks)
  let ?p = "VNum (of_int (key_sessions rows k) / t)"
  have fresh: "k \<notin> fst ` set d" using Cons.prems by auto
  have "distinct ks" "set ks \<inter> fst ` set (d @ [(k, ?p)]) = {}"
    using Cons.prems by auto
  from Cons.IH[OF this] show ?case
    using assms(1,2) fresh
    by (simp add: np_col_where_sessions np_sum_nums sum_key_sessions dict_set_fresh)
qed

lemma percentage_loop_zero:
  assumes "rows \<noteq> []" "ks \<noteq> []"
  shows "percentage_loop (map errors_cells rows) (Suc (Suc 0)) (Suc 0) (VNum 0) ks d =
         Inl ZeroDivisionError"
  using assms by (cases ks) (simp_all add: np_col_where_sessions np_sum_nums)

text \<open>
  The errors computation on the rows of its query, with the splitter, the total and the
  shares worked out: what remains is the loop over the common keys and the two sorts.
\<close>

lemma most_errors_typed:
  assumes "rows \<noteq> []"
  shows "most_errors_by_period (map errors_dict rows) =
    (let cur = current_period rows; prev = previous_period rows;
         this_period = first_seen (map (\<lambda>r. name_val (e_names r)) cur);
         last_period = first_seen (map (\<lambda>r. name_val (e_names r)) prev);
         new = new_keys this_period last_period
     in if total_sessions cur = 0 then Inl ZeroDivisionError
        else
          bindE (increase_loop (map errors_cells cur) (map errors_cells prev) (Suc (Suc 0))
                   (common_keys this_period new) []) (\<lambda>error_increase.
          bindE (py_sorted True (shares cur)) (\<lambda>r.
          bindE (py_sorted True error_increase) (\<lambda>i.
            Inr \<lparr>ratio = r, increase = i, new_events = new\<rparr>))))"
proof -
  have cur: "current_period rows \<noteq> []" by (rule current_period_ne[OF assms])
  then have ks: "first_seen (map (\<lambda>r. name_val (e_names r)) (current_period rows)) \<noteq> []" by simp
  show ?thesis
  proof (cases "total_sessions (current_period rows) = 0")
    case True
    then show ?thesis
      using cur ks
      by (simp add: most_errors_by_period_def get_two_values_typed[OF assms] list_index_columns
          np_col_sessions np_sum_nums sum_total_sessions percentage_loop_zero Let_def)
  next
    case False
    then have t: "(of_int (total_sessions (current_period rows)) :: rat) \<noteq> 0" by simp
    have pl: "percentage_loop (map errors_cells (current_period rows)) (Suc (Suc 0)) (Suc 0)
                (VNum (of_int (total_sessions (current_period rows))))
                (first_seen (map (\<lambda>r. name_val (e_names r)) (current_period rows))) []
              = Inr (shares (current_period rows))"
      using percentage_loop_typed[OF cur t, of _ "[]"] by (simp add: shares_def)
    show ?thesis
      using cur False
      by (simp add: most_errors_by_period_def get_two_values_typed[OF assms] list_index_columns
          np_col_sessions np_sum_nums sum_total_sessions pl Let_def)
  qed
qed

lemma most_errors_empty: "most_errors_by_period [] = Inl IndexError"
  by (simp add: most_errors_by_period_def get_two_values_def)

section \<open>C3: the increase of the errors category\<close>

text \<open>
  Claim C3 says that for a key of both periods the increase is the session count of the
  current period minus that of the previous one. The source subtracts the sums of the column
  \<^verbatim>\<open>names_idx\<close>, not \<^verbatim>\<open>sessions_idx\<close>: for the name \<^verbatim>\<open>'B'\<close> with 10 sessions now and 4 before,
  it evaluates \<^verbatim>\<open>'B' - 'B'\<close> and raises TypeError, where the claim gives an increase of 6.
\<close>

theorem errors_increase_common_key:
  "most_errors_by_period (map errors_dict common_key_rows) = Inl TypeError"
  by (simp add: common_key_rows_def eval_defs)

section \<open>C4: the ratio of the errors category\<close>

lemma name_val_inj: "name_val a = name_val b \<longleftrightarrow> a = b"
  by (cases a; cases b) (simp_all add: name_val_def)

lemma py_add_names:
  "py_add (name_val a) (name_val b) = Inl TypeError \<or> (\<exists>s. py_add (name_val a) (name_val b) = Inr (VStr s))"
  by (cases a; cases b) (simp_all add: name_val_def)

lemma py_add_str_name:
  "py_add (VStr s) (name_val b) = Inl TypeError \<or> (\<exists>t. py_add (VStr s) (name_val b) = Inr (VStr t))"
  by (cases b) (simp_all add: name_val_def)

lemma sum_from_str_names:
  "sum_from (VStr s) (map name_val bs) = Inl TypeError \<or>
   (\<exists>t. sum_from (VStr s) (map name_val bs) = Inr (VStr t))"
proof (induction bs arbitrary: s)
  case Nil
  then show ?case by simp
next
  case (Cons b bs)
  from py_add_str_name[of s b] show ?case
  proof
    assume "py_add (VStr s) (name_val b) = Inl TypeError"
    then show ?thesis by simp
  next
    assume "\<exists>t. py_add (VStr s) (name_val b) = Inr (VStr t)"
    then obtain t where "py_add (VStr s) (name_val b) = Inr (VStr t)" by blast
    with Cons.IH[of t] show ?thesis by simp
  qed
qed

lemma np_sum_names:
  assumes "bs \<noteq> []"
  shows "np_sum (map name_val bs) = Inl TypeError \<or>
         (\<exists>t. np_sum (map name_val bs) = Inr (VStr t)) \<or>
         np_sum (map name_val bs) = Inr VNone"
proof -
  from assms obtain b bs' where bs: "bs = b # bs'" by (cases bs) auto
  show ?thesis
  proof (cases b)
    case None
    show ?thesis
    proof (cases bs')
      case Nil
      then show ?thesis using None bs by (simp add: np_sum_def name_val_def)
    next
      case (Cons c cs)
      then show ?thesis using None bs by (simp add: np_sum_def name_val_def)
    qed
  next
    case (Some s)
    then have "np_sum (map name_val bs) = sum_from (VStr s) (map name_val bs')"
      by (simp add: bs np_sum_def name_val_def)
    with sum_from_str_names[of s bs'] show ?thesis by auto
  qed
qed

lemma py_sub_name_sum:
  assumes "v = VNone \<or> (\<exists>t. v = VStr t)"
  shows "py_sub v w = Inl TypeError"
  using assms by (cases w) auto

lemma sum_from_TypeError_only:
  "sum_from acc xs = Inl e \<Longrightarrow> e = TypeError"
proof (induction xs arbitrary: acc)
  case Nil then show ?case by simp
next
  case (Cons x xs)
  show ?case
  proof (cases "py_add acc x")
    case (Inl e')
    then have "e' = TypeError" by (cases acc; cases x) auto
    with Cons.prems Inl show ?thesis by simp
  next
    case (Inr a)
    with Cons show ?thesis by simp
  qed
qed

lemma np_sum_TypeError_only: "np_sum xs = Inl e \<Longrightarrow> e = TypeError"
  by (cases xs) (auto simp: np_sum_def dest: sum_from_TypeError_only)

lemma increase_loop_raises:
  assumes c: "cur \<noteq> []" and p: "prev \<noteq> []"
    and k: "k \<in> set (map (\<lambda>r. name_val (e_names r)) cur)"
  shows "increase_loop (map errors_cells cur) (map errors_cells prev) (Suc (Suc 0)) (k # ks) d
         = Inl TypeError"
proof -
  let ?c1 = "map (\<lambda>r. name_val (e_names r)) [r \<leftarrow> cur. name_val (e_names r) = k]"
  let ?c2 = "map (\<lambda>r. name_val (e_names r)) [r \<leftarrow> prev. name_val (e_names r) = k]"
  have ne1: "map e_names [r \<leftarrow> cur. name_val (e_names r) = k] \<noteq> []"
    using k by (auto simp: filter_empty_conv)
  have c1: "?c1 = map name_val (map e_names [r \<leftarrow> cur. name_val (e_names r) = k])"
    by (simp add: comp_def)
  note s1 = np_sum_names[OF ne1, folded c1]
  have step: "increase_loop (map errors_cells cur) (map errors_cells prev) (Suc (Suc 0)) (k # ks) d
        = bindE (np_sum ?c1) (\<lambda>s1. bindE (np_sum ?c2) (\<lambda>s2. bindE (py_sub s1 s2) (\<lambda>v.
            increase_loop (map errors_cells cur) (map errors_cells prev) (Suc (Suc 0)) ks
              (dict_set d k v))))"
    by (simp add: np_col_where_names[OF c] np_col_where_names[OF p])
  from s1 show ?thesis
  proof (elim disjE exE)
    assume "np_sum ?c1 = Inl TypeError"
    then show ?thesis unfolding step by simp
  next
    fix t assume a: "np_sum ?c1 = Inr (VStr t)"
    show ?thesis unfolding step a
      by (cases "np_sum ?c2") (auto simp: py_sub_name_sum dest: np_sum_TypeError_only)
  next
    assume a: "np_sum ?c1 = Inr VNone"
    show ?thesis unfolding step a
      by (cases "np_sum ?c2") (auto simp: py_sub_name_sum dest: np_sum_TypeError_only)
  qed
qed

text \<open>
  Claim C4 says that the ratio of the errors category lists every key of the current period
  with its share of the session count (the count of the key divided by the count of all
  current rows), in descending order, the shares summing to 1. The source builds exactly
  these shares in \<^verbatim>\<open>percentage_errors\<close>, but returns none of them when a name occurs in both
  periods: the loop of line 121 then raises TypeError (the defect of C3) before the return.
  This holds for all rows of the errors query with a current session count other than zero
  and a name in both periods.
\<close>

theorem errors_common_key_raises:
  assumes ne: "rows \<noteq> []"
    and tot: "total_sessions (current_period rows) \<noteq> 0"
    and common: "set (map e_names (current_period rows)) \<inter> set (map e_names (previous_period rows)) \<noteq> {}"
  shows "most_errors_by_period (map errors_dict rows) = Inl TypeError \<and>
         percentage_loop (map errors_cells (current_period rows)) (Suc (Suc 0)) (Suc 0)
           (VNum (of_int (total_sessions (current_period rows))))
           (first_seen (map (\<lambda>r. name_val (e_names r)) (current_period rows))) []
         = Inr (shares (current_period rows))"
proof -
  let ?cur = "current_period rows" and ?prev = "previous_period rows"
  let ?ks = "first_seen (map (\<lambda>r. name_val (e_names r)) ?cur)"
  let ?ls = "first_seen (map (\<lambda>r. name_val (e_names r)) ?prev)"
  from common obtain n where n: "n \<in> set (map e_names ?cur)" "n \<in> set (map e_names ?prev)"
    by blast
  then have c: "?cur \<noteq> []" and p: "?prev \<noteq> []" by auto
  have "name_val n \<in> set ?ks" "name_val n \<in> set ?ls" using n by auto
  then have "name_val n \<in> set (common_keys ?ks (new_keys ?ks ?ls))"
    by (auto simp: common_keys_def new_keys_def)
  then obtain k ks where kk: "common_keys ?ks (new_keys ?ks ?ls) = k # ks"
    by (cases "common_keys ?ks (new_keys ?ks ?ls)") auto
  then have "k \<in> set (common_keys ?ks (new_keys ?ks ?ls))" by simp
  then have "k \<in> set ?ks" by (auto simp: common_keys_def)
  then have k: "k \<in> set (map (\<lambda>r. name_val (e_names r)) ?cur)" by simp
  have raises: "most_errors_by_period (map errors_dict rows) = Inl TypeError"
    using tot
    by (simp add: most_errors_typed[OF ne] Let_def kk increase_loop_raises[OF c p k]
        del: increase_loop.simps)
  have t: "(of_int (total_sessions ?cur) :: rat) \<noteq> 0" using tot by simp
  have "percentage_loop (map errors_cells ?cur) (Suc (Suc 0)) (Suc 0)
          (VNum (of_int (total_sessions ?cur))) ?ks [] = Inr (shares ?cur)"
    using percentage_loop_typed[OF c t, of ?ks "[]"] by (simp add: shares_def)
  with raises show ?thesis by simp
qed

text \<open>
  Two hourly buckets with the name \<open>B\<close> in both: the shares \<open>3/4\<close> and \<open>1/4\<close> are computed
  and the call raises.
\<close>

theorem errors_common_key_raises_witness:
  "most_errors_by_period (map errors_dict overlapping_rows) = Inl TypeError \<and>
   shares (current_period overlapping_rows) = [(VStr ''A'', VNum (3 / 4)), (VStr ''B'', VNum (1 / 4))]"
proof -
  have "most_errors_by_period (map errors_dict overlapping_rows) = Inl TypeError"
    using errors_common_key_raises[of overlapping_rows]
    by (simp add: overlapping_rows_def total_sessions_def current_period_def
        previous_period_def earlier_periods_def)
  moreover have "shares (current_period overlapping_rows)
      = [(VStr ''A'', VNum (3 / 4)), (VStr ''B'', VNum (1 / 4))]"
    by (simp add: overlapping_rows_def shares_def current_period_def first_seen_def
        append_unique_def name_val_def key_sessions_def total_sessions_def)
  ultimately show ?thesis by simp
qed

lemma sum_key_sessions_total:
  assumes "finite K" "\<forall>r\<in>set xs. name_val (e_names r) \<in> K"
  shows "(\<Sum>k\<in>K. key_sessions xs k) = total_sessions xs"
  using assms(2)
proof (induction xs)
  case Nil
  then show ?case by (simp add: key_sessions_def total_sessions_def)
next
  case (Cons x xs)
  then have IH: "(\<Sum>k\<in>K. key_sessions xs k) = total_sessions xs" and xK: "name_val (e_names x) \<in> K"
    by simp_all
  have "(\<Sum>k\<in>K. key_sessions (x # xs) k)
        = (\<Sum>k\<in>K. (if name_val (e_names x) = k then e_sessions x else 0) + key_sessions xs k)"
    by (rule sum.cong) (simp_all add: key_sessions_def)
  also have "\<dots> = e_sessions x + (\<Sum>k\<in>K. key_sessions xs k)"
    using assms(1) xK by (simp add: sum.distrib)
  finally show ?case using IH by (simp add: total_sessions_def)
qed

lemma order_key_num_le [simp]: "order_key (VNum a) \<le> order_key (VNum b) \<longleftrightarrow> a \<le> b"
  by auto

lemma orderable_nums: "orderable (map (\<lambda>k. VNum (f k)) ks)"
  by (cases ks) (simp_all add: orderable_def list_all_iff)

lemma orderable_shares: "orderable (map snd (shares cur))"
  by (simp add: shares_def comp_def orderable_nums)

lemma py_sorted_shares:
  "py_sorted True (shares cur) =
     Inr (rev (sort_key (\<lambda>p. order_key (snd p)) (rev (shares cur))))"
  by (simp add: py_sorted_def orderable_shares)

lemma shares_snd: "p \<in> set (shares cur) \<Longrightarrow> snd p = VNum (session_share cur (fst p))"
  by (auto simp: shares_def session_share_def)

lemma map_fst_shares: "map fst (shares cur) = first_seen (map (\<lambda>r. name_val (e_names r)) cur)"
  by (simp add: shares_def comp_def)

lemma distinct_perm:
  assumes "distinct (map f xs)" "set ys = set xs" "length ys = length xs"
  shows "distinct (map f ys)"
proof -
  have "card (f ` set xs) = length xs" using assms(1) by (metis distinct_card length_map set_map)
  then have "card (set (map f ys)) = length (map f ys)" using assms(2,3) by simp
  then show ?thesis by (rule card_distinct)
qed

text \<open>
  Whenever the errors computation does return, which requires that no name is in both
  periods, its \<^verbatim>\<open>ratio\<close> lists every name of the current period once, each with its share,
  in descending order of the share, and the shares sum to 1. Shares are exact quotients
  here, so the sum is exactly 1.
\<close>

theorem errors_ratio_shares:
  assumes "most_errors_by_period (map errors_dict rows) = Inr r"
  shows "distinct (map fst (ratio r)) \<and>
         set (map fst (ratio r)) = set (map (\<lambda>x. name_val (e_names x)) (current_period rows)) \<and>
         map snd (ratio r) = map (\<lambda>k. VNum (session_share (current_period rows) k)) (map fst (ratio r)) \<and>
         sorted_wrt (\<ge>) (map (session_share (current_period rows)) (map fst (ratio r))) \<and>
         sum_list (map (session_share (current_period rows)) (map fst (ratio r))) = 1"
proof -
  let ?cur = "current_period rows"
  let ?items = "shares ?cur"
  let ?key = "\<lambda>p :: val \<times> val. order_key (snd p)"
  have ne: "rows \<noteq> []" using assms by (auto simp: most_errors_empty)
  have tot: "total_sessions ?cur \<noteq> 0"
    using assms by (auto simp: most_errors_typed[OF ne] Let_def split: if_splits)
  have "\<exists>ei i. py_sorted True ?items = Inr (ratio r)"
    using assms tot by (auto simp: most_errors_typed[OF ne] Let_def bindE_eq_Inr)
  then have ratio: "ratio r = rev (sort_key ?key (rev ?items))"
    by (simp add: py_sorted_shares)
  have set_r: "set (ratio r) = set ?items" and len_r: "length (ratio r) = length ?items"
    by (simp_all add: ratio)
  have d: "distinct (map fst (ratio r))"
    by (rule distinct_perm[OF _ set_r len_r]) (simp add: map_fst_shares)
  have keys: "set (map fst (ratio r)) = set (map (\<lambda>x. name_val (e_names x)) ?cur)"
  proof -
    have "set (map fst (ratio r)) = set (map fst ?items)" using set_r by simp
    then show ?thesis by (simp only: map_fst_shares set_first_seen)
  qed
  have snd: "map snd (ratio r) = map (\<lambda>k. VNum (session_share ?cur k)) (map fst (ratio r))"
    using set_r by (auto simp: shares_snd)
  have "sorted (map ?key (sort_key ?key (rev ?items)))" by simp
  then have "sorted_wrt (\<ge>) (map ?key (ratio r))"
    by (simp add: ratio rev_map[symmetric] sorted_wrt_rev)
  then have "sorted_wrt (\<lambda>p q. ?key p \<ge> ?key q) (ratio r)"
    by (simp add: sorted_wrt_map)
  then have "sorted_wrt (\<lambda>p q. session_share ?cur (fst p) \<ge> session_share ?cur (fst q)) (ratio r)"
  proof (rule sorted_wrt_mono_rel[rotated])
    fix p q assume "p \<in> set (ratio r)" "q \<in> set (ratio r)" "?key q \<le> ?key p"
    then show "session_share ?cur (fst q) \<le> session_share ?cur (fst p)"
      using set_r by (auto simp add: shares_snd)
  qed
  then have srt: "sorted_wrt (\<ge>) (map (session_share ?cur) (map fst (ratio r)))"
    by (simp add: sorted_wrt_map)
  have "sum_list (map (session_share ?cur) (map fst (ratio r)))
        = (\<Sum>k\<in>set (map fst (ratio r)). session_share ?cur k)"
    using d by (rule sum_list_distinct_conv_sum_set)
  also have "\<dots> = (\<Sum>k\<in>set (map (\<lambda>x. name_val (e_names x)) ?cur). session_share ?cur k)"
    by (simp only: keys)
  also have "\<dots> = of_int (\<Sum>k\<in>set (map (\<lambda>x. name_val (e_names x)) ?cur). key_sessions ?cur k)
                    / of_int (total_sessions ?cur)"
    by (simp add: session_share_def sum_divide_distrib)
  also have "\<dots> = 1"
    using tot by (subst sum_key_sessions_total) simp_all
  finally have sm: "sum_list (map (session_share ?cur) (map fst (ratio r))) = 1" .
  from d keys snd srt sm show ?thesis by blast
qed

theorem errors_ratio_shares_witness:
  "most_errors_by_period (map errors_dict disjoint_key_rows) =
     Inr \<lparr>ratio = [(VStr ''A'', VNum (3 / 4)), (VStr ''B'', VNum (1 / 4))], increase = [],
          new_events = [VStr ''A'', VStr ''B'']\<rparr> \<and>
   sorted_wrt (\<ge>) (map (session_share (current_period disjoint_key_rows)) [VStr ''A'', VStr ''B'']) \<and>
   sum_list (map (session_share (current_period disjoint_key_rows)) [VStr ''A'', VStr ''B'']) = 1"
proof -
  have e: "most_errors_by_period (map errors_dict disjoint_key_rows) =
     Inr \<lparr>ratio = [(VStr ''A'', VNum (3 / 4)), (VStr ''B'', VNum (1 / 4))], increase = [],
          new_events = [VStr ''A'', VStr ''B'']\<rparr>"
    by (simp add: disjoint_key_rows_def eval_defs)
  from errors_ratio_shares[OF e] e show ?thesis by simp
qed

text \<open>
  The errors computation returns when the current period has sessions and shares no name
  with the previous one.
\<close>

lemma errors_returns:
  assumes "rows \<noteq> []" and "total_sessions (current_period rows) \<noteq> 0"
    and "set (map e_names (current_period rows)) \<inter> set (map e_names (previous_period rows)) = {}"
  shows "\<exists>r. most_errors_by_period (map errors_dict rows) = Inr r"
proof -
  have inj: "name_val a = name_val b \<longleftrightarrow> a = b" for a b
    by (cases a; cases b) (simp_all add: name_val_def)
  let ?ks = "first_seen (map (\<lambda>r. name_val (e_names r)) (current_period rows))"
  let ?ls = "first_seen (map (\<lambda>r. name_val (e_names r)) (previous_period rows))"
  have "set ?ks \<inter> set ?ls = {}"
    using assms(3) by (auto simp: inj)
  then have "common_keys ?ks (new_keys ?ks ?ls) = []"
    by (auto simp: new_keys_def common_keys_def filter_empty_conv)
  then show ?thesis
    using assms(2)
    by (simp add: most_errors_typed[OF assms(1)] Let_def py_sorted_shares)
       (simp add: py_sorted_def orderable_def)
qed

theorem errors_returns_witness:
  "\<exists>r. most_errors_by_period (map errors_dict disjoint_key_rows) = Inr r"
  by (rule errors_returns)
     (simp_all add: disjoint_key_rows_def total_sessions_def current_period_def
        previous_period_def earlier_periods_def)

section \<open>C5: the time step\<close>

text \<open>
  Claim C5 says that zero and negative integers fail. The source accepts every \<^verbatim>\<open>int\<close>:
  0 minutes gives buckets of 0 seconds and -5 minutes buckets of -300 seconds.
\<close>

theorem handle_timestep_zero_accepted:
  "handle_timestep (Minutes 0) = Inr (ToStartOfInterval 0, 0) \<and>
   handle_timestep (Minutes (- 5)) = Inr (ToStartOfInterval (- 5), - 300)"
  by (simp add: handle_timestep_def)

text \<open>
  Claim C5, amended. \<^verbatim>\<open>'hour'\<close>, \<^verbatim>\<open>'day'\<close> and \<^verbatim>\<open>'week'\<close> give bucket widths of 3600, 86400
  and 604800 seconds, and every integer \<open>n\<close>, whatever its sign, gives \<open>n * 60\<close>; every other
  string and every value that is not an \<^verbatim>\<open>int\<close> fails the assertion of the source
  (AssertionError), with no default.
\<close>

theorem handle_timestep_cases:
  "handle_timestep (Token ''hour'') = Inr (ToStartOfHour, 3600) \<and>
   handle_timestep (Token ''day'') = Inr (ToStartOfDay, 86400) \<and>
   handle_timestep (Token ''week'') = Inr (ToStartOfWeek, 604800) \<and>
   handle_timestep (Minutes n) = Inr (ToStartOfInterval n, n * 60) \<and>
   (s \<notin> {''hour'', ''day'', ''week''} \<longrightarrow> handle_timestep (Token s) = Inl AssertionError) \<and>
   handle_timestep Other = Inl AssertionError"
  by (simp add: handle_timestep_def)

theorem handle_timestep_cases_witness:
  "handle_timestep (Token ''hour'') = Inr (ToStartOfHour, 3600) \<and>
   handle_timestep (Minutes 15) = Inr (ToStartOfInterval 15, 900) \<and>
   handle_timestep (Token ''fortnight'') = Inl AssertionError"
  using handle_timestep_cases[of 15 "''fortnight''"] by simp

section \<open>C6: a current period without sessions\<close>

text \<open>
  Claim C6 says that with a total session count of zero the share computation fails with a
  NoDataInPeriod condition and never raises a bare division exception. The source has no
  such condition: on one bucket with no sessions the division raises ZeroDivisionError.
\<close>

theorem errors_zero_total_counterexample:
  "most_errors_by_period (map errors_dict quiet_rows) = Inl ZeroDivisionError"
  by (simp add: quiet_rows_def eval_defs)

text \<open>
  Claim C6, amended. For the errors category, whenever the current period has a total session
  count of zero the computation raises ZeroDivisionError: it returns no value at all, so
  neither NaN nor infinity.
\<close>

theorem errors_zero_total:
  assumes "rows \<noteq> []" and "total_sessions (current_period rows) = 0"
  shows "most_errors_by_period (map errors_dict rows) = Inl ZeroDivisionError"
  using assms by (simp add: most_errors_typed Let_def)

theorem errors_zero_total_witness:
  "most_errors_by_period
     (map errors_dict [ErrorsRow 7200 0 (Some ''TypeError'') [], ErrorsRow 3600 5 (Some ''TypeError'') [''a.js'']])
   = Inl ZeroDivisionError"
  by (rule errors_zero_total) (simp_all add: total_sessions_def current_period_def)

section \<open>C7: the slots of rage and resources\<close>

text \<open>
  Claim C7 says that the slots of the rage and resources categories hold compared results.
  Both functions return right after the query, so the slots hold the rows of the data source
  as they came.
\<close>

theorem fetch_selected_rage_resources_raw:
  "fetch_selected [''rage'', ''resources''] 1307 ''2022-04-19'' ''2022-04-21'' (Token ''hour'')
     exact_numpy quiet_conn []
   = (Inr [''rage'' \<mapsto> Raw rage_rows, ''resources'' \<mapsto> Raw rage_rows],
      [hour_query ISSUE_click_rage, hour_query PERFORMANCE])"
  by (simp add: fetch_selected_def Let_def select_step_def query_click_rage_by_period_def
      query_cpu_memory_by_period_def handle_timestep_def execute_def quiet_conn_def hour_query_def)

section \<open>C8: degenerate inputs\<close>

text \<open>
  Claim C8 says that for empty input both periods are returned empty. \<^verbatim>\<open>response[0]\<close> raises
  IndexError on an empty response.
\<close>

theorem get_two_values_empty:
  "get_two_values [] ''hh'' ''names'' = Inl IndexError"
  by (simp add: get_two_values_def)

text \<open>
  Claim C8, amended. For a non-empty response of the errors query whose rows all carry one
  bucket timestamp, the splitter returns all rows as the current period, with no previous
  rows and no previous keys, and raises nothing; the errors computation then, when the total
  session count is not zero, returns an empty \<^verbatim>\<open>increase\<close> and every current key as new.
\<close>

theorem single_period_errors:
  assumes "rows \<noteq> []" and "list_all (\<lambda>r. e_hh r = e_hh (hd rows)) rows"
  shows "get_two_values (map errors_dict rows) ''hh'' ''names'' =
           Inr (map errors_cells rows, [], [''hh'', ''sessions'', ''names'', ''sources''],
                first_seen (map (\<lambda>r. name_val (e_names r)) rows), []) \<and>
         (total_sessions rows \<noteq> 0 \<longrightarrow>
            (\<exists>r. most_errors_by_period (map errors_dict rows) = Inr r \<and> increase r = [] \<and>
                 new_events r = first_seen (map (\<lambda>r. name_val (e_names r)) rows)))"
proof -
  have cur: "current_period rows = rows"
    using assms(2) by (simp add: current_period_def list_all_iff)
  have "earlier_periods rows = []"
    using assms(2) by (simp add: earlier_periods_def list_all_iff)
  then have prev: "previous_period rows = []" by (simp add: previous_period_def)
  have fs: "first_seen ([] :: val list) = []" by (simp add: first_seen_def)
  have split: "get_two_values (map errors_dict rows) ''hh'' ''names'' =
           Inr (map errors_cells rows, [], [''hh'', ''sessions'', ''names'', ''sources''],
                first_seen (map (\<lambda>r. name_val (e_names r)) rows), [])"
    by (simp add: get_two_values_typed[OF assms(1)] cur prev fs)
  have nk: "new_keys ks [] = ks" "common_keys ks ks = []" for ks :: "val list"
    by (simp_all add: new_keys_def common_keys_def)
  have down: "\<exists>r. most_errors_by_period (map errors_dict rows) = Inr r \<and> increase r = [] \<and>
                 new_events r = first_seen (map (\<lambda>r. name_val (e_names r)) rows)"
    if "total_sessions rows \<noteq> 0"
    using that
    by (simp add: most_errors_typed[OF assms(1)] cur prev fs nk Let_def py_sorted_shares)
       (simp add: py_sorted_def orderable_def)
  from split down show ?thesis by blast
qed

theorem single_period_errors_witness:
  "get_two_values (map errors_dict one_period_rows) ''hh'' ''names'' =
     Inr ([[VTime 7200, VNum 3, VStr ''A'', VArr []], [VTime 7200, VNum 1, VStr ''B'', VArr []]],
          [], [''hh'', ''sessions'', ''names'', ''sources''], [VStr ''A'', VStr ''B''], []) \<and>
   (\<exists>r. most_errors_by_period (map errors_dict one_period_rows) = Inr r \<and> increase r = [] \<and>
        new_events r = [VStr ''A'', VStr ''B''])"
  using single_period_errors[of one_period_rows]
  by (simp add: one_period_rows_def total_sessions_def first_seen_def append_unique_def
      errors_cells_def errors_dict_def name_val_def)

text \<open>
  The requests computation returns only when some path is in both periods: its variable
  \<^verbatim>\<open>d1_tmp\<close> is bound in the loop over the common paths and read after it. With one period
  only it raises UnboundLocalError.
\<close>

lemma delta_loop_Some:
  "delta_loop np t1 t2 si di ui ns st = Inr (dd, ds, Some d1) \<Longrightarrow> snd (snd st) = None \<Longrightarrow> ns \<noteq> []"
  by (cases ns) auto

theorem requests_need_common_key:
  assumes "requests_by_period np res = Inr r"
  shows "\<exists>t1 t2 cols this last.
           get_two_values res ''hh'' ''source'' = Inr (t1, t2, cols, this, last) \<and>
           set this \<inter> set last \<noteq> {}"
proof -
  from assms obtain t1 t2 cols this last dd ds d1 si di ui where
    g: "get_two_values res ''hh'' ''source'' = Inr (t1, t2, cols, this, last)" and
    l: "delta_loop np t1 t2 si di ui (common_keys this (new_keys this last)) ([], [], None)
          = Inr (dd, ds, Some d1)"
    unfolding requests_by_period_def
    by (auto simp: bindE_eq_Inr Let_def split: prod.splits option.splits)
  from delta_loop_Some[OF l] have "common_keys this (new_keys this last) \<noteq> []" by simp
  then have "set this \<inter> set last \<noteq> {}"
    by (auto simp: common_keys_def new_keys_def filter_empty_conv)
  with g show ?thesis by blast
qed

theorem requests_need_common_key_witness:
  "requests_by_period exact_numpy one_period_requests = Inl UnboundLocalError"
proof -
  have g: "get_two_values one_period_requests ''hh'' ''source'' =
        Inr ([[VTime 7200, VNum 3, VNum 1, VStr ''example.com'', VStr ''/a'', VNum 20]], [],
             [''hh'', ''sessions'', ''success_rate'', ''names'', ''source'', ''avg_duration''],
             [VStr ''/a''], [])"
    by (simp add: one_period_requests_def get_two_values_def init_state_def py_nth_def
        append_unique_def Let_def)
  have "\<not> (\<exists>r. requests_by_period exact_numpy one_period_requests = Inr r)"
    using requests_need_common_key[of exact_numpy one_period_requests] g by auto
  moreover have "requests_by_period exact_numpy one_period_requests = Inl UnboundLocalError
      \<or> (\<exists>r. requests_by_period exact_numpy one_period_requests = Inr r)"
    by (simp add: requests_by_period_def g new_keys_def common_keys_def Let_def)
  ultimately show ?thesis by blast
qed

section \<open>C9: a failing category\<close>

text \<open>
  Claim C9 says that a failure in one category leaves the others attempted and their results
  reported. With errors and rage selected and the errors computation failing, the call
  returns the failure alone, and the rage query is never sent.
\<close>

theorem fetch_selected_errors_failure_aborts:
  "fetch_selected [''errors'', ''rage''] 1307 ''2022-04-19'' ''2022-04-21'' (Token ''hour'')
     exact_numpy quiet_conn []
   = (Inl ZeroDivisionError, [hour_query ERROR])"
  by (simp add: fetch_selected_def Let_def select_step_def query_most_errors_by_period_def
      handle_timestep_def execute_def quiet_conn_def hour_query_def quiet_rows_def eval_defs)

lemma fst_query_most_errors:
  "fst (query_most_errors_by_period p s e ts conn tr) = fst (query_most_errors_by_period p s e ts conn tr')"
  by (simp add: query_most_errors_by_period_def execute_def split: sum.split prod.split)

lemma fst_query_requests:
  "fst (query_requests_by_period p s e ts np conn tr) = fst (query_requests_by_period p s e ts np conn tr')"
  by (simp add: query_requests_by_period_def execute_def split: sum.split prod.split)

lemma fst_query_click_rage:
  "fst (query_click_rage_by_period p s e ts conn tr) = fst (query_click_rage_by_period p s e ts conn tr')"
  by (simp add: query_click_rage_by_period_def execute_def split: sum.split prod.split)

lemma fst_query_cpu_memory:
  "fst (query_cpu_memory_by_period p s e ts conn tr) = fst (query_cpu_memory_by_period p s e ts conn tr')"
  by (simp add: query_cpu_memory_by_period_def execute_def split: sum.split prod.split)

lemma select_step_failed: "fst st = Inl e \<Longrightarrow> fst (select_step sel name run st) = Inl e"
  by (cases st) (auto simp: select_step_def)

lemma select_step_fails:
  assumes "name \<in> set sel" and "\<And>tr. fst (run tr) = Inl e"
  shows "\<exists>e'. fst (select_step sel name run st) = Inl e'"
proof (cases st)
  case (Pair a tr)
  show ?thesis
  proof (cases a)
    case (Inl x)
    then show ?thesis using Pair by (simp add: select_step_def)
  next
    case (Inr out)
    obtain tr' where "run tr = (Inl e, tr')" using assms(2)[of tr] by (cases "run tr") auto
    then show ?thesis using Pair Inr assms(1) by (simp add: select_step_def)
  qed
qed

lemma select_step_first:
  assumes "name \<in> set sel" and "run tr = (Inl e, tr1)"
  shows "select_step sel name run (Inr out, tr) = (Inl e, tr1)"
  using assms by (simp add: select_step_def)

lemma select_step_failed_eq: "select_step sel name run (Inl e, tr) = (Inl e, tr)"
  by (simp add: select_step_def)

lemma fetch_selected_fails:
  assumes "(''errors'' \<in> set sel \<and> fst (query_most_errors_by_period p s e ts conn tr0) = Inl err) \<or>
    (''network'' \<in> set sel \<and> fst (query_requests_by_period p s e ts np conn tr0) = Inl err) \<or>
    (''rage'' \<in> set sel \<and> fst (query_click_rage_by_period p s e ts conn tr0) = Inl err) \<or>
    (''resources'' \<in> set sel \<and> fst (query_cpu_memory_by_period p s e ts conn tr0) = Inl err)"
  shows "\<exists>err' tr'. fetch_selected sel p s e ts np conn tr = (Inl err', tr')"
proof -
  let ?s1 = "select_step sel ''errors'' (query_most_errors_by_period p s e ts conn) (Inr Map.empty, tr)"
  let ?s2 = "select_step sel ''network'' (query_requests_by_period p s e ts np conn) ?s1"
  let ?s3 = "select_step sel ''rage'' (query_click_rage_by_period p s e ts conn) ?s2"
  let ?s4 = "select_step sel ''resources'' (query_cpu_memory_by_period p s e ts conn) ?s3"
  note h = assms
  from h have ne: "sel \<noteq> []" by auto
  have p2: "fst ?s2 = Inl x" if "fst ?s1 = Inl x" for x using that by (rule select_step_failed)
  have p3: "fst ?s3 = Inl x" if "fst ?s2 = Inl x" for x using that by (rule select_step_failed)
  have p4: "fst ?s4 = Inl x" if "fst ?s3 = Inl x" for x using that by (rule select_step_failed)
  have "\<exists>e'. fst ?s4 = Inl e'"
    using h
  proof (elim disjE conjE)
    assume a: "''errors'' \<in> set sel" "fst (query_most_errors_by_period p s e ts conn tr0) = Inl err"
    have "fst (query_most_errors_by_period p s e ts conn x) = Inl err" for x
      using a(2) fst_query_most_errors[of p s e ts conn x tr0] by simp
    with a(1) have "\<exists>e'. fst ?s1 = Inl e'" by (intro select_step_fails)
    then show ?thesis using p2 p3 p4 by blast
  next
    assume a: "''network'' \<in> set sel" "fst (query_requests_by_period p s e ts np conn tr0) = Inl err"
    have "fst (query_requests_by_period p s e ts np conn x) = Inl err" for x
      using a(2) fst_query_requests[of p s e ts np conn x tr0] by simp
    with a(1) have "\<exists>e'. fst ?s2 = Inl e'" by (intro select_step_fails)
    then show ?thesis using p3 p4 by blast
  next
    assume a: "''rage'' \<in> set sel" "fst (query_click_rage_by_period p s e ts conn tr0) = Inl err"
    have "fst (query_click_rage_by_period p s e ts conn x) = Inl err" for x
      using a(2) fst_query_click_rage[of p s e ts conn x tr0] by simp
    with a(1) have "\<exists>e'. fst ?s3 = Inl e'" by (intro select_step_fails)
    then show ?thesis using p4 by blast
  next
    assume a: "''resources'' \<in> set sel" "fst (query_cpu_memory_by_period p s e ts conn tr0) = Inl err"
    have "fst (query_cpu_memory_by_period p s e ts conn x) = Inl err" for x
      using a(2) fst_query_cpu_memory[of p s e ts conn x tr0] by simp
    with a(1) show "\<exists>e'. fst ?s4 = Inl e'" by (intro select_step_fails)
  qed
  then obtain e' where "fst ?s4 = Inl e'" by blast
  then have "?s4 = (Inl e', snd ?s4)" by (metis prod.collapse)
  then show "\<exists>err' tr'. fetch_selected sel p s e ts np conn tr = (Inl err', tr')"
    using ne by (auto simp: fetch_selected_def Let_def)
qed

lemma select_step_passed:
  assumes "passed sel name run tr tr'"
  shows "\<exists>out'. select_step sel name run (Inr out, tr) = (Inr out', tr')"
proof (cases "name \<in> set sel")
  case True
  obtain a b where r: "run tr = (a, b)" by (cases "run tr")
  with assms True obtain v where "a = Inr v" "b = tr'" by (cases a) (auto simp: passed_def)
  with r True show ?thesis by (simp add: select_step_def)
next
  case False
  with assms show ?thesis by (simp add: passed_def select_step_def)
qed

lemma query_trace_errors:
  "\<exists>qs. snd (query_most_errors_by_period p s e ts conn tr) = tr @ qs \<and> length qs \<le> 1 \<and>
        list_all (\<lambda>q. q_event q = ERROR) qs"
  by (auto simp: query_most_errors_by_period_def execute_def split: sum.split prod.split)

lemma query_trace_requests:
  "\<exists>qs. snd (query_requests_by_period p s e ts np conn tr) = tr @ qs \<and> length qs \<le> 1 \<and>
        list_all (\<lambda>q. q_event q = REQUEST) qs"
  by (auto simp: query_requests_by_period_def execute_def split: sum.split prod.split)

lemma query_trace_click_rage:
  "\<exists>qs. snd (query_click_rage_by_period p s e ts conn tr) = tr @ qs \<and> length qs \<le> 1 \<and>
        list_all (\<lambda>q. q_event q = ISSUE_click_rage) qs"
  by (auto simp: query_click_rage_by_period_def execute_def split: sum.split prod.split)

lemma query_trace_cpu_memory:
  "\<exists>qs. snd (query_cpu_memory_by_period p s e ts conn tr) = tr @ qs \<and> length qs \<le> 1 \<and>
        list_all (\<lambda>q. q_event q = PERFORMANCE) qs"
  by (auto simp: query_cpu_memory_by_period_def execute_def split: sum.split prod.split)

text \<open>
  Claim C9, amended. A failure in one category's computation ends the call. The categories
  run in the order errors, network, rage, resources; when the categories before one have
  passed and that one is selected and raises, \<^verbatim>\<open>fetch_selected\<close> returns exactly that failure
  and the trace that category's function left, with no report: no later category is
  attempted. Each query function adds at most its own query to the trace, so the trace
  returned holds no query of a later category. In particular, whenever the computation of
  any selected category fails, the call returns a failure.
\<close>

theorem fetch_selected_aborts:
  "(''errors'' \<in> set sel \<and>
    query_most_errors_by_period p s e ts conn tr = (Inl err, t1)
      \<longrightarrow> fetch_selected sel p s e ts np conn tr = (Inl err, t1)) \<and>
   (passed sel ''errors'' (query_most_errors_by_period p s e ts conn) tr t1 \<and>
    ''network'' \<in> set sel \<and>
    query_requests_by_period p s e ts np conn t1 = (Inl err, t2)
      \<longrightarrow> fetch_selected sel p s e ts np conn tr = (Inl err, t2)) \<and>
   (passed sel ''errors'' (query_most_errors_by_period p s e ts conn) tr t1 \<and>
    passed sel ''network'' (query_requests_by_period p s e ts np conn) t1 t2 \<and>
    ''rage'' \<in> set sel \<and>
    query_click_rage_by_period p s e ts conn t2 = (Inl err, t3)
      \<longrightarrow> fetch_selected sel p s e ts np conn tr = (Inl err, t3)) \<and>
   (passed sel ''errors'' (query_most_errors_by_period p s e ts conn) tr t1 \<and>
    passed sel ''network'' (query_requests_by_period p s e ts np conn) t1 t2 \<and>
    passed sel ''rage'' (query_click_rage_by_period p s e ts conn) t2 t3 \<and>
    ''resources'' \<in> set sel \<and>
    query_cpu_memory_by_period p s e ts conn t3 = (Inl err, t4)
      \<longrightarrow> fetch_selected sel p s e ts np conn tr = (Inl err, t4)) \<and>
   (\<exists>qs. snd (query_most_errors_by_period p s e ts conn tr) = tr @ qs \<and> length qs \<le> 1 \<and>
         list_all (\<lambda>q. q_event q = ERROR) qs) \<and>
   (\<exists>qs. snd (query_requests_by_period p s e ts np conn tr) = tr @ qs \<and> length qs \<le> 1 \<and>
         list_all (\<lambda>q. q_event q = REQUEST) qs) \<and>
   (\<exists>qs. snd (query_click_rage_by_period p s e ts conn tr) = tr @ qs \<and> length qs \<le> 1 \<and>
         list_all (\<lambda>q. q_event q = ISSUE_click_rage) qs) \<and>
   (\<exists>qs. snd (query_cpu_memory_by_period p s e ts conn tr) = tr @ qs \<and> length qs \<le> 1 \<and>
         list_all (\<lambda>q. q_event q = PERFORMANCE) qs) \<and>
   ((''errors'' \<in> set sel \<and> fst (query_most_errors_by_period p s e ts conn tr0) = Inl err) \<or>
    (''network'' \<in> set sel \<and> fst (query_requests_by_period p s e ts np conn tr0) = Inl err) \<or>
    (''rage'' \<in> set sel \<and> fst (query_click_rage_by_period p s e ts conn tr0) = Inl err) \<or>
    (''resources'' \<in> set sel \<and> fst (query_cpu_memory_by_period p s e ts conn tr0) = Inl err)
      \<longrightarrow> (\<exists>err' tr'. fetch_selected sel p s e ts np conn tr = (Inl err', tr')))"
proof -
  let ?E = "query_most_errors_by_period p s e ts conn"
  let ?N = "query_requests_by_period p s e ts np conn"
  let ?R = "query_click_rage_by_period p s e ts conn"
  let ?C = "query_cpu_memory_by_period p s e ts conn"
  let ?F = "fetch_selected sel p s e ts np conn tr"
  have unfold: "?F = select_step sel ''resources'' ?C (select_step sel ''rage'' ?R
      (select_step sel ''network'' ?N (select_step sel ''errors'' ?E (Inr Map.empty, tr))))"
    if "sel \<noteq> []" using that by (simp add: fetch_selected_def Let_def)
  have a: "?F = (Inl err, t1)" if "''errors'' \<in> set sel" "?E tr = (Inl err, t1)"
  proof -
    from that(1) have ne: "sel \<noteq> []" by auto
    show ?thesis
      unfolding unfold[OF ne] select_step_first[where run="?E", OF that]
      by (simp only: select_step_failed_eq)
  qed
  have b: "?F = (Inl err, t2)"
    if "passed sel ''errors'' ?E tr t1" "''network'' \<in> set sel" "?N t1 = (Inl err, t2)"
  proof -
    from that(2) have ne: "sel \<noteq> []" by auto
    from select_step_passed[OF that(1)] obtain o1
      where s1: "select_step sel ''errors'' ?E (Inr Map.empty, tr) = (Inr o1, t1)" by blast
    show ?thesis
      unfolding unfold[OF ne] s1 select_step_first[where run="?N", OF that(2,3)]
      by (simp only: select_step_failed_eq)
  qed
  have c: "?F = (Inl err, t3)"
    if "passed sel ''errors'' ?E tr t1" "passed sel ''network'' ?N t1 t2"
      "''rage'' \<in> set sel" "?R t2 = (Inl err, t3)"
  proof -
    from that(3) have ne: "sel \<noteq> []" by auto
    from select_step_passed[OF that(1)] obtain o1
      where s1: "select_step sel ''errors'' ?E (Inr Map.empty, tr) = (Inr o1, t1)" by blast
    from select_step_passed[OF that(2)] obtain o2
      where s2: "select_step sel ''network'' ?N (Inr o1, t1) = (Inr o2, t2)" by blast
    show ?thesis
      unfolding unfold[OF ne] s1 s2 select_step_first[where run="?R", OF that(3,4)]
      by (simp only: select_step_failed_eq)
  qed
  have d: "?F = (Inl err, t4)"
    if "passed sel ''errors'' ?E tr t1" "passed sel ''network'' ?N t1 t2"
      "passed sel ''rage'' ?R t2 t3" "''resources'' \<in> set sel" "?C t3 = (Inl err, t4)"
  proof -
    from that(4) have ne: "sel \<noteq> []" by auto
    from select_step_passed[OF that(1)] obtain o1
      where s1: "select_step sel ''errors'' ?E (Inr Map.empty, tr) = (Inr o1, t1)" by blast
    from select_step_passed[OF that(2)] obtain o2
      where s2: "select_step sel ''network'' ?N (Inr o1, t1) = (Inr o2, t2)" by blast
    from select_step_passed[OF that(3)] obtain o3
      where s3: "select_step sel ''rage'' ?R (Inr o2, t2) = (Inr o3, t3)" by blast
    show ?thesis
      unfolding unfold[OF ne] s1 s2 s3 by (rule select_step_first[where run="?C", OF that(4,5)])
  qed
  from a b c d query_trace_errors[of p s e ts conn tr] query_trace_requests[of p s e ts np conn tr]
    query_trace_click_rage[of p s e ts conn tr] query_trace_cpu_memory[of p s e ts conn tr]
    fetch_selected_fails[of sel p s e ts conn tr0 err np tr]
  show ?thesis by blast
qed

text \<open>
  Network and rage selected, the requests computation failing: the call returns its
  failure, and the rage query is never sent.
\<close>

theorem fetch_selected_aborts_witness:
  "fetch_selected [''rage'', ''network''] 1307 ''2022-04-19'' ''2022-04-21'' (Token ''hour'')
     exact_numpy one_period_conn [] = (Inl UnboundLocalError, [hour_query REQUEST])"
proof -
  have run: "query_requests_by_period 1307 ''2022-04-19'' ''2022-04-21'' (Token ''hour'')
               exact_numpy one_period_conn [] = (Inl UnboundLocalError, [hour_query REQUEST])"
    by (simp add: query_requests_by_period_def handle_timestep_def execute_def
        one_period_conn_def hour_query_def one_period_requests_def requests_by_period_def
        get_two_values_def init_state_def py_nth_def append_unique_def new_keys_def
        common_keys_def Let_def)
  have pass: "passed [''rage'', ''network''] ''errors''
      (query_most_errors_by_period 1307 ''2022-04-19'' ''2022-04-21'' (Token ''hour'') one_period_conn)
      [] []"
    by (simp add: passed_def)
  from fetch_selected_aborts[of "[''rage'', ''network'']" 1307 "''2022-04-19''" "''2022-04-21''"
      "Token ''hour''" one_period_conn "[]" UnboundLocalError "[]" exact_numpy
      "[hour_query REQUEST]"] run pass
  show ?thesis by simp
qed

section \<open>C10: a selection without a recognized category\<close>

lemma select_step_skip: "name \<notin> set selectedEvents \<Longrightarrow> select_step selectedEvents name run st = st"
  by (cases st) (auto simp: select_step_def split: sum.split)

text \<open>
  Claim C10. For every non-empty selection that holds none of \<^verbatim>\<open>'errors'\<close>, \<^verbatim>\<open>'network'\<close>,
  \<^verbatim>\<open>'rage'\<close> and \<^verbatim>\<open>'resources'\<close>, \<^verbatim>\<open>fetch_selected\<close> returns the empty report, raises
  nothing and sends no query, whatever the time step and the connection.
\<close>

theorem fetch_selected_unrecognized:
  assumes "selectedEvents \<noteq> []"
    and "set selectedEvents \<inter> {''errors'', ''network'', ''rage'', ''resources''} = {}"
  shows "fetch_selected selectedEvents project_id start_time end_time ts np conn tr
         = (Inr Map.empty, tr)"
  using assms by (simp add: fetch_selected_def Let_def select_step_skip)

theorem fetch_selected_unrecognized_witness:
  "fetch_selected [''clicks'', ''cpu''] 1307 ''2022-04-19'' ''2022-04-21'' Other exact_numpy
     quiet_conn [] = (Inr Map.empty, [])"
  by (rule fetch_selected_unrecognized) simp_all

end
